theory Spec2Isabelle
  imports Complex_Main "HOL-Library.Log_Nat"
begin

section \<open>Conventions\<close>

text \<open>
  The program is a TypeScript web client.
  A \<^verbatim>\<open>number\<close> is an IEEE 754 binary64 value and its arithmetic rounds: the section on
  numbers gives the model. An amount as a backend row or a form field holds it is a
  decimal, a \<^typ>\<open>rat\<close>; \<^verbatim>\<open>Number\<close> and \<^verbatim>\<open>parseFloat\<close> turn it into a number.
  A \<^verbatim>\<open>string\<close> is a \<^typ>\<open>string\<close>: the list of the bytes of its UTF-8 encoding,
  which for ASCII text is the text itself.
  The hosted storage backend is an external collaborator: what it answers to a query
  is an argument of the function that awaits the query.
\<close>

section \<open>Numbers\<close>

text \<open>
  A \<^verbatim>\<open>number\<close> is an IEEE 754 binary64 value. The model represents it by the
  rational it denotes: a \<^typ>\<open>rat\<close> that \<open>binary64\<close> leaves unchanged. An operation
  computes exactly and then rounds to the nearest such value, ties to the even
  significand. The exponent range is not limited: the model is that of the program
  for results of size between \<open>2\<^sup>-\<^sup>1\<^sup>0\<^sup>2\<^sup>2\<close> and \<open>2\<^sup>1\<^sup>0\<^sup>2\<^sup>4\<close> and for zero;
  \<^verbatim>\<open>NaN\<close> and the infinities are outside it.
\<close>

text \<open>The integer \<open>e\<close> with \<open>2\<^sup>e \<le> |x| < 2\<^sup>e\<^sup>+\<^sup>1\<close>, for \<open>x\<close> other than zero.\<close>

definition exponent :: "rat \<Rightarrow> int" where
  "exponent x =
     (let a = \<bar>x\<bar>
      in if 1 \<le> a then bitlen \<lfloor>a\<rfloor> - 1 else - bitlen (\<lceil>1 / a\<rceil> - 1))"

definition round_half_even :: "rat \<Rightarrow> int" where
  "round_half_even y =
     (let n = \<lfloor>y\<rfloor>; r = y - of_int n
      in if r < 1 / 2 then n else if 1 / 2 < r then n + 1 else if even n then n else n + 1)"

text \<open>Rounding to 53 significant bits.\<close>

definition binary64 :: "rat \<Rightarrow> rat" where
  "binary64 x =
     (if x = 0 then 0
      else (let ulp = 2 powi (exponent x - 52)
            in of_int (round_half_even (x / ulp)) * ulp))"

text \<open>\<^verbatim>\<open>a + b\<close> and \<^verbatim>\<open>a - b\<close> on numbers.\<close>

definition js_add :: "rat \<Rightarrow> rat \<Rightarrow> rat" where
  "js_add a b = binary64 (a + b)"

definition js_sub :: "rat \<Rightarrow> rat \<Rightarrow> rat" where
  "js_sub a b = binary64 (a - b)"

text \<open>
  \<^verbatim>\<open>Number(d)\<close> and \<^verbatim>\<open>parseFloat(d)\<close> of a decimal \<open>d\<close>, as a backend row or a form
  field holds it: the number nearest to \<open>d\<close>.
\<close>

definition Number :: "rat \<Rightarrow> rat" where
  "Number d = binary64 d"

definition parseFloat :: "rat \<Rightarrow> rat" where
  "parseFloat d = binary64 d"

section \<open>The Balance Engine: \<^verbatim>\<open>calculateBalances\<close> (pages/Groups)\<close>

subsection \<open>Rows as the queries return them\<close>

text \<open>
  \<^verbatim>\<open>group_expenses.select('id, amount, paid_by, expense_splits (user_id, amount)')\<close>
  and \<^verbatim>\<open>group_members.select('user_id, user_profiles (email, full_name)')\<close>.
  The amounts of a row are the decimals the backend holds (\<^verbatim>\<open>decimal(10, 2)\<close>).
\<close>

record expense_split =
  split_user_id :: string
  split_amount :: rat

record expense_row =
  expense_id :: string
  expense_amount :: rat
  paid_by :: string
  expense_splits :: "expense_split list"

record user_profile =
  email :: string
  full_name :: "string option"

record member_row =
  member_user_id :: string
  user_profiles :: user_profile

text \<open>\<^verbatim>\<open>interface Balance { user_id; user_name; user_email; balance }\<close>\<close>

record Balance =
  user_id :: string
  user_name :: string
  user_email :: string
  balance :: rat

subsection \<open>The accumulation\<close>

text \<open>\<^verbatim>\<open>const balanceMap = new Map<string, number>()\<close>\<close>

type_synonym balanceMap = "string \<rightharpoonup> rat"

text \<open>
  \<^verbatim>\<open>balanceMap.get(k) || 0\<close>: \<^verbatim>\<open>undefined\<close> and \<^verbatim>\<open>0\<close> are the falsy values an
  entry can take, and both give \<open>0\<close>.
\<close>

definition get_or_0 :: "balanceMap \<Rightarrow> string \<Rightarrow> rat" where
  "get_or_0 m k = (case m k of None \<Rightarrow> 0 | Some v \<Rightarrow> (if v = 0 then 0 else v))"

text \<open>
  The body of the inner \<^verbatim>\<open>forEach\<close>:
  \<^verbatim>\<open>balanceMap.set(userId, (balanceMap.get(userId) || 0) - splitAmount)\<close>
  with \<^verbatim>\<open>splitAmount = Number(split.amount)\<close>.
\<close>

definition subtract_split :: "balanceMap \<Rightarrow> expense_split \<Rightarrow> balanceMap" where
  "subtract_split m s =
     (let userId = split_user_id s; splitAmount = Number (split_amount s)
      in m(userId \<mapsto> js_sub (get_or_0 m userId) splitAmount))"

text \<open>
  The body of the outer \<^verbatim>\<open>forEach\<close>: the payer is credited with
  \<^verbatim>\<open>totalAmount = Number(expense.amount)\<close>, then every split of the expense is
  charged to its user.
\<close>

definition add_expense :: "balanceMap \<Rightarrow> expense_row \<Rightarrow> balanceMap" where
  "add_expense m expense =
     (let paidBy = paid_by expense; totalAmount = Number (expense_amount expense)
      in foldl subtract_split (m(paidBy \<mapsto> js_add (get_or_0 m paidBy) totalAmount))
           (expense_splits expense))"

definition accumulate :: "expense_row list \<Rightarrow> balanceMap" where
  "accumulate expenses = foldl add_expense Map.empty expenses"

text \<open>\<^verbatim>\<open>m.user_profiles.full_name || 'Unknown'\<close>: \<^verbatim>\<open>null\<close> and \<^verbatim>\<open>''\<close> are falsy.\<close>

definition name_or_unknown :: "string option \<Rightarrow> string" where
  "name_or_unknown n = (case n of None \<Rightarrow> ''Unknown'' | Some s \<Rightarrow> (if s = [] then ''Unknown'' else s))"

definition balance_entry :: "balanceMap \<Rightarrow> member_row \<Rightarrow> Balance" where
  "balance_entry m mem =
     \<lparr>user_id = member_user_id mem,
      user_name = name_or_unknown (full_name (user_profiles mem)),
      user_email = email (user_profiles mem),
      balance = get_or_0 m (member_user_id mem)\<rparr>"

text \<open>
  \<^verbatim>\<open>calculateBalances\<close>. The two arguments of option type are the \<^verbatim>\<open>data\<close> fields the
  two queries answer (\<^verbatim>\<open>null\<close> is \<open>None\<close>); the third is the component's \<^verbatim>\<open>balances\<close>
  state, and the result is that state afterwards: \<^verbatim>\<open>setBalances\<close> is reached only
  when both queries answered rows.
\<close>

definition calculateBalances ::
  "expense_row list option \<Rightarrow> member_row list option \<Rightarrow> Balance list \<Rightarrow> Balance list" where
  "calculateBalances expenses members balances =
     (case expenses of
        None \<Rightarrow> balances
      | Some es \<Rightarrow>
          (let balanceMap = accumulate es
           in case members of
                None \<Rightarrow> balances
              | Some ms \<Rightarrow> map (balance_entry balanceMap) ms))"

subsection \<open>The algorithm in the specification's words\<close>

text \<open>
  Every id starts at \<open>0\<close>; an expense adds its total to the payer's accumulator and
  subtracts each of its splits from the split member's accumulator. Adding and
  subtracting are those of the program's numbers.
\<close>

definition spec_subtract_split :: "(string \<Rightarrow> rat) \<Rightarrow> expense_split \<Rightarrow> (string \<Rightarrow> rat)" where
  "spec_subtract_split acc s =
     acc(split_user_id s := js_sub (acc (split_user_id s)) (Number (split_amount s)))"

definition spec_add_expense :: "(string \<Rightarrow> rat) \<Rightarrow> expense_row \<Rightarrow> (string \<Rightarrow> rat)" where
  "spec_add_expense acc e =
     foldl spec_subtract_split
       (acc(paid_by e := js_add (acc (paid_by e)) (Number (expense_amount e))))
       (expense_splits e)"

definition spec_balances :: "expense_row list \<Rightarrow> string \<Rightarrow> rat" where
  "spec_balances es = foldl spec_add_expense (\<lambda>_. 0) es"

definition spec_entry :: "expense_row list \<Rightarrow> member_row \<Rightarrow> Balance" where
  "spec_entry es mem =
     \<lparr>user_id = member_user_id mem,
      user_name = name_or_unknown (full_name (user_profiles mem)),
      user_email = email (user_profiles mem),
      balance = spec_balances es (member_user_id mem)\<rparr>"

subsection \<open>Datasets and sums the properties speak of\<close>

definition member_ids :: "member_row list \<Rightarrow> string list" where
  "member_ids ms = map member_user_id ms"

definition split_total :: "expense_row \<Rightarrow> rat" where
  "split_total e = sum_list (map split_amount (expense_splits e))"

text \<open>The splits of an expense sum to its total within the entry-time tolerance.\<close>

definition reconciles :: "expense_row \<Rightarrow> bool" where
  "reconciles e = (\<bar>split_total e - expense_amount e\<bar> \<le> 1 / 100)"

definition reconciles_exactly :: "expense_row \<Rightarrow> bool" where
  "reconciles_exactly e = (split_total e = expense_amount e)"

text \<open>The payer and every split user of an expense are members of the group.\<close>

definition within_group :: "member_row list \<Rightarrow> expense_row \<Rightarrow> bool" where
  "within_group ms e =
     (paid_by e \<in> set (member_ids ms) \<and>
      list_all (\<lambda>s. split_user_id s \<in> set (member_ids ms)) (expense_splits e))"

definition total_balance :: "Balance list \<Rightarrow> rat" where
  "total_balance bs = sum_list (map balance bs)"

text \<open>
  In decimal arithmetic: what a user fronted, what one expense charges a user, what
  all expenses charge.
\<close>

definition credit :: "expense_row list \<Rightarrow> string \<Rightarrow> rat" where
  "credit es u = (\<Sum>e\<leftarrow>es. if paid_by e = u then expense_amount e else 0)"

definition charge :: "expense_split list \<Rightarrow> string \<Rightarrow> rat" where
  "charge ss u = (\<Sum>s\<leftarrow>ss. if split_user_id s = u then split_amount s else 0)"

definition debit :: "expense_row list \<Rightarrow> string \<Rightarrow> rat" where
  "debit es u = (\<Sum>e\<leftarrow>es. charge (expense_splits e) u)"

text \<open>The part of an expense that reaches the output: credits and charges of members only.\<close>

definition member_share :: "string list \<Rightarrow> expense_row \<Rightarrow> rat" where
  "member_share us e =
     (if paid_by e \<in> set us then expense_amount e else 0)
     - (\<Sum>s\<leftarrow>expense_splits e. if split_user_id s \<in> set us then split_amount s else 0)"

text \<open>The number of accumulator updates of a run, and the sum of the sizes of all amounts.\<close>

definition update_count :: "expense_row list \<Rightarrow> nat" where
  "update_count es = (\<Sum>e\<leftarrow>es. 1 + length (expense_splits e))"

definition magnitude :: "expense_row list \<Rightarrow> rat" where
  "magnitude es = (\<Sum>e\<leftarrow>es. \<bar>expense_amount e\<bar> + (\<Sum>s\<leftarrow>expense_splits e. \<bar>split_amount s\<bar>))"

text \<open>
  The updates of a run in order: the user, the number the program adds to that
  user's accumulator, and the decimal that number stands for.
\<close>

definition updates_of :: "expense_row \<Rightarrow> (string \<times> rat \<times> rat) list" where
  "updates_of e =
     (paid_by e, Number (expense_amount e), expense_amount e) #
     map (\<lambda>s. (split_user_id s, - Number (split_amount s), - split_amount s)) (expense_splits e)"

definition updates :: "expense_row list \<Rightarrow> (string \<times> rat \<times> rat) list" where
  "updates es = concat (map updates_of es)"

definition own :: "string \<Rightarrow> (string \<times> rat \<times> rat) list \<Rightarrow> (rat \<times> rat) list" where
  "own u ups = map snd (filter (\<lambda>x. fst x = u) ups)"

text \<open>A user who paid nothing and has no split.\<close>

definition inactive :: "expense_row list \<Rightarrow> string \<Rightarrow> bool" where
  "inactive es u =
     list_all (\<lambda>e. paid_by e \<noteq> u \<and> list_all (\<lambda>s. split_user_id s \<noteq> u) (expense_splits e)) es"

definition zero_entry :: "member_row \<Rightarrow> Balance" where
  "zero_entry mem =
     \<lparr>user_id = member_user_id mem,
      user_name = name_or_unknown (full_name (user_profiles mem)),
      user_email = email (user_profiles mem),
      balance = 0\<rparr>"

subsection \<open>Example groups\<close>

definition group_member :: "string \<Rightarrow> member_row" where
  "group_member u =
     \<lparr>member_user_id = u, user_profiles = \<lparr>email = u @ ''@example.org'', full_name = None\<rparr>\<rparr>"

definition split_of :: "string \<Rightarrow> rat \<Rightarrow> expense_split" where
  "split_of u a = \<lparr>split_user_id = u, split_amount = a\<rparr>"

definition expense_of :: "string \<Rightarrow> string \<Rightarrow> rat \<Rightarrow> expense_split list \<Rightarrow> expense_row" where
  "expense_of i p a ss = \<lparr>expense_id = i, expense_amount = a, paid_by = p, expense_splits = ss\<rparr>"

text \<open>
  A pays 100 split 50/50, then B pays 50 split 25/25: the two scenarios of the
  specification's testable properties.
\<close>

definition scenario_expenses :: "expense_row list" where
  "scenario_expenses =
     [expense_of ''e1'' ''A'' 100 [split_of ''A'' 50, split_of ''B'' 50],
      expense_of ''e2'' ''B'' 50 [split_of ''A'' 25, split_of ''B'' 25]]"

text \<open>Two expenses of 10.00 whose splits, 5.00 and 4.99, are each 0.01 short.\<close>

definition rounded_expenses :: "expense_row list" where
  "rounded_expenses =
     [expense_of ''e1'' ''A'' 10 [split_of ''A'' 5, split_of ''B'' (499 / 100)],
      expense_of ''e2'' ''A'' 10 [split_of ''A'' 5, split_of ''B'' (499 / 100)]]"

text \<open>An expense with a split for \<open>X\<close>, who is not among the members A and B.\<close>

definition outsider_expenses :: "expense_row list" where
  "outsider_expenses = [expense_of ''e1'' ''A'' 60 [split_of ''A'' 30, split_of ''X'' 30]]"

text \<open>Three expenses of 0.10, each paid by A for B.\<close>

definition dime_expenses :: "expense_row list" where
  "dime_expenses =
     [expense_of ''e1'' ''A'' (1 / 10) [split_of ''B'' (1 / 10)],
      expense_of ''e2'' ''A'' (1 / 10) [split_of ''B'' (1 / 10)],
      expense_of ''e3'' ''A'' (1 / 10) [split_of ''B'' (1 / 10)]]"

section \<open>Split validation and the two-step write: \<^verbatim>\<open>handleSubmit\<close> (AddGroupExpenseModal)\<close>

subsection \<open>The form\<close>

text \<open>\<^verbatim>\<open>'equal' | 'unequal' | 'percentage' | 'shares'\<close>\<close>

datatype split_type = Equal | Unequal | Percentage | Shares

text \<open>
  The props and state that \<^verbatim>\<open>handleSubmit\<close> reads. \<open>userId\<close> is \<^verbatim>\<open>user!.id\<close>;
  \<open>amountText\<close> is the decimal that the required numeric field \<^verbatim>\<open>amount\<close> holds as
  text; \<open>expenseDate\<close> is the ISO rendering of the required date field; \<open>splits\<close> is
  the \<^verbatim>\<open>Record<string, number>\<close> as \<^verbatim>\<open>Object.entries\<close> lists it, its values numbers.
\<close>

record expense_form =
  groupId :: string
  userId :: string
  title :: string
  amountText :: rat
  categoryId :: string
  expenseDate :: string
  notesText :: string
  splitType :: split_type
  splits :: "(string \<times> rat) list"



text \<open>The objects handed to \<^verbatim>\<open>insert\<close> on \<^verbatim>\<open>group_expenses\<close> and on \<^verbatim>\<open>expense_splits\<close>.\<close>

record group_expense_insert =
  ins_group_id :: string
  ins_paid_by :: string
  ins_title :: string
  ins_amount :: rat
  ins_category_id :: string
  ins_expense_date :: string
  ins_notes :: "string option"
  ins_split_type :: split_type

record expense_split_insert =
  ins_group_expense_id :: string
  ins_user_id :: string
  ins_split_amount :: rat

subsection \<open>The storage collaborator\<close>

text \<open>
  The backend answers a write with \<^verbatim>\<open>{ data, error }\<close>. Which answer it gives is
  its own decision, so the answers are arguments of \<^verbatim>\<open>handleSubmit\<close>. The stored
  tables follow the answer: a write answered with data has stored its rows (the
  expense under the id the answer carries), a write answered with an error has
  stored none.
\<close>

datatype 'a response = Data 'a | Error string

record storage =
  group_expenses_table :: "(string \<times> group_expense_insert) list"
  expense_splits_table :: "expense_split_insert list"

definition insert_group_expense ::
  "group_expense_insert \<Rightarrow> string response \<Rightarrow> storage \<Rightarrow> storage" where
  "insert_group_expense row answer s =
     (case answer of
        Data new_id \<Rightarrow> s\<lparr>group_expenses_table := group_expenses_table s @ [(new_id, row)]\<rparr>
      | Error _ \<Rightarrow> s)"

definition insert_expense_splits ::
  "expense_split_insert list \<Rightarrow> unit response \<Rightarrow> storage \<Rightarrow> storage" where
  "insert_expense_splits rows answer s =
     (case answer of
        Data _ \<Rightarrow> s\<lparr>expense_splits_table := expense_splits_table s @ rows\<rparr>
      | Error _ \<Rightarrow> s)"

subsection \<open>What a submission leaves behind\<close>

text \<open>
  The \<^verbatim>\<open>error\<close> state of the modal: \<open>NoMessage\<close> is \<^verbatim>\<open>''\<close>,
  \<open>SplitTotalMismatch t a\<close> is the template literal
  \<^verbatim>\<open>Split total (${totalSplit}) must equal expense amount (${expenseAmount})\<close>
  with \<open>t\<close> and \<open>a\<close> interpolated, \<open>BackendMessage m\<close> is the \<^verbatim>\<open>message\<close> of the
  backend's error.
\<close>

datatype message = NoMessage | SplitTotalMismatch rat rat | BackendMessage string


datatype write_request =
  InsertGroupExpense group_expense_insert
| InsertExpenseSplits "expense_split_insert list"

text \<open>
  The modal's \<^verbatim>\<open>error\<close> and \<^verbatim>\<open>loading\<close> state at the end, whether
  \<^verbatim>\<open>onSuccess(); onClose()\<close> ran, the stored tables, and the writes sent, in order.
\<close>

record submit_result =
  error_message :: message
  loading :: bool
  closed_with_success :: bool
  stored :: storage
  requests :: "write_request list"

subsection \<open>\<^verbatim>\<open>handleSubmit\<close>\<close>

text \<open>\<^verbatim>\<open>Object.values(splits).reduce((sum, val) => sum + val, 0)\<close>\<close>

definition totalSplit :: "expense_form \<Rightarrow> rat" where
  "totalSplit f = foldl (\<lambda>sum val. js_add sum val) 0 (map snd (splits f))"

text \<open>\<^verbatim>\<open>parseFloat(amount)\<close>\<close>

definition expenseAmount :: "expense_form \<Rightarrow> rat" where
  "expenseAmount f = parseFloat (amountText f)"

text \<open>
  \<^verbatim>\<open>Math.abs(totalSplit - expenseAmount) > 0.01\<close>: the difference is a number, and
  so is the literal \<^verbatim>\<open>0.01\<close>, the number nearest to 1/100.
\<close>

definition validation_fails :: "expense_form \<Rightarrow> bool" where
  "validation_fails f = (\<bar>js_sub (totalSplit f) (expenseAmount f)\<bar> > binary64 (1 / 100))"

definition new_group_expense :: "expense_form \<Rightarrow> group_expense_insert" where
  "new_group_expense f =
     \<lparr>ins_group_id = groupId f,
      ins_paid_by = userId f,
      ins_title = title f,
      ins_amount = expenseAmount f,
      ins_category_id = categoryId f,
      ins_expense_date = expenseDate f,
      ins_notes = (if notesText f = [] then None else Some (notesText f)),
      ins_split_type = splitType f\<rparr>"

text \<open>\<^verbatim>\<open>Object.entries(splits).map(([userId, splitAmount]) => ({ ... }))\<close>\<close>

definition splitInserts :: "string \<Rightarrow> expense_form \<Rightarrow> expense_split_insert list" where
  "splitInserts new_id f =
     map (\<lambda>(user, splitAmount).
            \<lparr>ins_group_expense_id = new_id, ins_user_id = user, ins_split_amount = splitAmount\<rparr>)
         (splits f)"

text \<open>
  The handler returns early three times: when the split total is off by more than
  0.01, when the expense insert is answered with an error, and when the splits
  insert is. None of the early returns sends a further write.
\<close>

definition handleSubmit ::
  "expense_form \<Rightarrow> string response \<Rightarrow> unit response \<Rightarrow> storage \<Rightarrow> submit_result" where
  "handleSubmit f expenseAnswer splitsAnswer s =
     (if validation_fails f then
        \<lparr>error_message = SplitTotalMismatch (totalSplit f) (expenseAmount f),
         loading = False, closed_with_success = False, stored = s, requests = []\<rparr>
      else
        (let s1 = insert_group_expense (new_group_expense f) expenseAnswer s
         in case expenseAnswer of
              Error msg \<Rightarrow>
                \<lparr>error_message = BackendMessage msg,
                 loading = False, closed_with_success = False, stored = s1,
                 requests = [InsertGroupExpense (new_group_expense f)]\<rparr>
            | Data new_id \<Rightarrow>
                (let s2 = insert_expense_splits (splitInserts new_id f) splitsAnswer s1
                 in case splitsAnswer of
                      Error msg \<Rightarrow>
                        \<lparr>error_message = BackendMessage msg,
                         loading = False, closed_with_success = False, stored = s2,
                         requests = [InsertGroupExpense (new_group_expense f),
                                     InsertExpenseSplits (splitInserts new_id f)]\<rparr>
                    | Data _ \<Rightarrow>
                        \<lparr>error_message = NoMessage,
                         loading = False, closed_with_success = True, stored = s2,
                         requests = [InsertGroupExpense (new_group_expense f),
                                     InsertExpenseSplits (splitInserts new_id f)]\<rparr>)))"

subsection \<open>Quantities the validation properties speak of\<close>



subsection \<open>Example submissions\<close>

text \<open>A bill of the given amount paid by A, with the given splits.\<close>

definition bill :: "rat \<Rightarrow> (string \<times> rat) list \<Rightarrow> expense_form" where
  "bill amount_typed shares =
     \<lparr>groupId = ''g1'', userId = ''A'', title = ''Dinner'', amountText = amount_typed,
      categoryId = ''food'', expenseDate = ''2024-01-01T00:00:00.000Z'', notesText = '''',
      splitType = Unequal, splits = shares\<rparr>"

text \<open>A dinner of 10.00.\<close>

definition dinner :: "(string \<times> rat) list \<Rightarrow> expense_form" where
  "dinner shares = bill 10 shares"

definition empty_storage :: storage where
  "empty_storage = \<lparr>group_expenses_table = [], expense_splits_table = []\<rparr>"

section \<open>The Settlement Trigger: \<^verbatim>\<open>generateGooglePayUrl\<close> (utils/googlePay)\<close>

text \<open>\<^verbatim>\<open>interface GooglePayParams { upiId; amount; name; note }\<close>\<close>

record GooglePayParams =
  upiId :: string
  amount :: rat
  name :: string
  noteText :: string

subsection \<open>\<^verbatim>\<open>Number.prototype.toFixed(2)\<close>\<close>

definition digit_char :: "nat \<Rightarrow> char" where
  "digit_char d = ''0123456789'' ! d"

text \<open>The decimal digits of a natural number, \<open>''0''\<close> for zero.\<close>

fun digits :: "nat \<Rightarrow> string" where
  "digits n = (if n < 10 then [digit_char n] else digits (n div 10) @ [digit_char (n mod 10)])"

declare digits.simps [simp del]

text \<open>
  \<^verbatim>\<open>Number::toString\<close> where \<^verbatim>\<open>toFixed\<close> falls back on it, for values of at
  least \<open>10\<^sup>2\<^sup>1\<close>. ECMAScript takes integers \<open>n\<close>, \<open>k\<close> and \<open>s\<close> with \<open>s\<close> of \<open>k\<close>
  digits, \<open>s \<sqdot> 10\<^sup>n\<^sup>-\<^sup>k\<close> a decimal that reads back as the number \<open>x\<close>, and \<open>k\<close> as
  small as possible; of several \<open>s\<close> the one nearest to \<open>x\<close>, the even one of two.
  For \<open>k\<close> digits the candidate is \<open>x\<close> scaled and rounded; seventeen digits always
  read back.
\<close>

definition candidate :: "rat \<Rightarrow> nat \<Rightarrow> nat \<Rightarrow> nat \<times> nat" where
  "candidate x n0 k =
     (let s = nat (round_half_even (x / 10 ^ (n0 - k)))
      in if s = 10 ^ k then (10 ^ (k - 1), n0 + 1) else (s, n0))"

definition reads_back :: "rat \<Rightarrow> nat \<Rightarrow> nat \<times> nat \<Rightarrow> bool" where
  "reads_back x k sn = (binary64 (of_nat (fst sn) * 10 ^ (snd sn - k)) = x)"

fun shortest :: "rat \<Rightarrow> nat \<Rightarrow> nat \<Rightarrow> nat \<Rightarrow> nat \<times> nat \<times> nat" where
  "shortest x n0 k 0 = (k, candidate x n0 k)"
| "shortest x n0 k (Suc j) =
     (if reads_back x k (candidate x n0 k) then (k, candidate x n0 k)
      else shortest x n0 (Suc k) j)"

text \<open>
  The digits, a point after the first when there are several, and the exponent.
  The search starts from the number of digits of the integer part of \<open>x\<close>.
\<close>

definition number_toString_exp :: "rat \<Rightarrow> string" where
  "number_toString_exp x =
     (let n0 = length (digits (nat \<lfloor>x\<rfloor>));
          (k, s, n) = shortest x n0 1 16;
          ds = digits s;
          e = digits (n - 1)
      in if k = 1 then ds @ ''e+'' @ e
         else take 1 ds @ ''.'' @ drop 1 ds @ ''e+'' @ e)"

text \<open>The integer \<open>n\<close> for which \<open>n / 100\<close> is closest to \<open>x\<close>, the larger of two.\<close>

definition nearest_hundredth :: "rat \<Rightarrow> nat" where
  "nearest_hundredth x = nat \<lfloor>x * 100 + 1 / 2\<rfloor>"

text \<open>
  \<^verbatim>\<open>toFixed\<close> with two fraction digits, as ECMAScript defines it: the sign, then
  either the fallback above or the digits of \<open>n\<close>, padded with zeros to three, with
  a point before the last two.
\<close>

definition toFixed2 :: "rat \<Rightarrow> string" where
  "toFixed2 v =
     (let s = (if v < 0 then ''-'' else '''');
          x = (if v < 0 then - v else v)
      in if x \<ge> 10 ^ 21 then s @ number_toString_exp x
         else
           (let n = nearest_hundredth x;
                m = digits n;
                m = (if length m \<le> 2 then replicate (3 - length m) CHR ''0'' @ m else m);
                k = length m
            in s @ take (k - 2) m @ ''.'' @ drop (k - 2) m))"

subsection \<open>\<^verbatim>\<open>URLSearchParams\<close>\<close>

text \<open>
  The \<^verbatim>\<open>application/x-www-form-urlencoded\<close> serializer: letters, digits and
  \<^verbatim>\<open>* - . _\<close> stay, a space becomes \<^verbatim>\<open>+\<close>, every other byte becomes \<^verbatim>\<open>%\<close> and two
  upper-case hexadecimal digits; a name and its value are joined by \<^verbatim>\<open>=\<close>, the pairs
  by \<^verbatim>\<open>&\<close>.
\<close>

definition is_alnum :: "char \<Rightarrow> bool" where
  "is_alnum c =
     (let n = (of_char c :: nat)
      in (48 \<le> n \<and> n \<le> 57) \<or> (65 \<le> n \<and> n \<le> 90) \<or> (97 \<le> n \<and> n \<le> 122))"

definition unescaped :: "char \<Rightarrow> bool" where
  "unescaped c = (is_alnum c \<or> c = CHR ''*'' \<or> c = CHR ''-'' \<or> c = CHR ''.'' \<or> c = CHR ''_'')"

definition hex_digit :: "nat \<Rightarrow> char" where
  "hex_digit d = ''0123456789ABCDEF'' ! d"

definition percent_encode :: "char \<Rightarrow> string" where
  "percent_encode c =
     [CHR ''%'', hex_digit ((of_char c :: nat) div 16), hex_digit ((of_char c :: nat) mod 16)]"

definition urlencode_byte :: "char \<Rightarrow> string" where
  "urlencode_byte c =
     (if c = CHR '' '' then ''+'' else if unescaped c then [c] else percent_encode c)"

definition urlencode :: "string \<Rightarrow> string" where
  "urlencode s = concat (map urlencode_byte s)"

fun join_amp :: "string list \<Rightarrow> string" where
  "join_amp [] = []"
| "join_amp [p] = p"
| "join_amp (p # q # ps) = p @ ''&'' @ join_amp (q # ps)"

definition encode_pair :: "string \<times> string \<Rightarrow> string" where
  "encode_pair kv = urlencode (fst kv) @ ''='' @ urlencode (snd kv)"

definition URLSearchParams_toString :: "(string \<times> string) list \<Rightarrow> string" where
  "URLSearchParams_toString params = join_amp (map encode_pair params)"

subsection \<open>\<^verbatim>\<open>generateGooglePayUrl\<close>\<close>

definition generateGooglePayUrl :: "GooglePayParams \<Rightarrow> string" where
  "generateGooglePayUrl p =
     (let params = [(''pa'', upiId p),
                    (''pn'', name p),
                    (''am'', toFixed2 (amount p)),
                    (''cu'', ''INR''),
                    (''tn'', noteText p)]
      in ''upi://pay?'' @ URLSearchParams_toString params)"

subsection \<open>Reading a query string back\<close>

text \<open>
  What the receiving application does with the query: cut it at every \<^verbatim>\<open>&\<close>, cut
  each piece at its first \<^verbatim>\<open>=\<close>, and decode name and value (\<^verbatim>\<open>+\<close> is a space,
  \<^verbatim>\<open>%XY\<close> the byte with hexadecimal digits \<open>X\<close> and \<open>Y\<close>). A parameter is contained in
  a URI when this reading gives it back.
\<close>

definition hex_val :: "char \<Rightarrow> nat" where
  "hex_val c =
     (let n = (of_char c :: nat)
      in if 48 \<le> n \<and> n \<le> 57 then n - 48
         else if 65 \<le> n \<and> n \<le> 70 then n - 55
         else if 97 \<le> n \<and> n \<le> 102 then n - 87
         else 0)"

fun urldecode :: "string \<Rightarrow> string" where
  "urldecode [] = []"
| "urldecode (c # cs) =
     (if c = CHR ''+'' then CHR '' '' # urldecode cs
      else if c = CHR ''%'' then
        (case cs of
           h # l # rest \<Rightarrow> char_of (16 * hex_val h + hex_val l) # urldecode rest
         | _ \<Rightarrow> c # urldecode cs)
      else c # urldecode cs)"

fun pieces :: "char \<Rightarrow> string \<Rightarrow> string list" where
  "pieces sep [] = [[]]"
| "pieces sep (c # cs) =
     (case pieces sep cs of
        [] \<Rightarrow> [[c]]
      | p # ps \<Rightarrow> (if c = sep then [] # p # ps else (c # p) # ps))"

definition parse_pair :: "string \<Rightarrow> string \<times> string" where
  "parse_pair p =
     (urldecode (takeWhile (\<lambda>c. c \<noteq> CHR ''='') p),
      urldecode (drop 1 (dropWhile (\<lambda>c. c \<noteq> CHR ''='') p)))"

definition URLSearchParams_parse :: "string \<Rightarrow> (string \<times> string) list" where
  "URLSearchParams_parse q = map parse_pair (pieces CHR ''&'' q)"

text \<open>The number a string of digits denotes, its decimal point passed over.\<close>

definition read_decimal :: "string \<Rightarrow> nat" where
  "read_decimal s =
     foldl (\<lambda>a c. if c = CHR ''.'' then a else 10 * a + ((of_char c :: nat) - 48)) 0 s"

subsection \<open>Inputs the properties speak of\<close>

definition ascii :: "string \<Rightarrow> bool" where
  "ascii s = list_all (\<lambda>c. (of_char c :: nat) < 128) s"

text \<open>An amount that is a whole number of hundredths.\<close>

definition whole_hundredths :: "rat \<Rightarrow> bool" where
  "whole_hundredths x = (of_int \<lfloor>x * 100\<rfloor> = x * 100)"

definition settle_25 :: GooglePayParams where
  "settle_25 = \<lparr>upiId = ''merchant@upi'', amount = 25, name = ''Asha Rao'',
                 noteText = ''Splitzee settlement for Goa trip''\<rparr>"

section \<open>Proofs: numbers\<close>

subsection \<open>The error of one rounding\<close>

lemma exponent_le:
  assumes "x \<noteq> 0"
  shows "2 powi (exponent x) \<le> \<bar>x\<bar>"
proof (cases "1 \<le> \<bar>x\<bar>")
  case True
  define m where "m = \<lfloor>\<bar>x\<bar>\<rfloor>"
  have m: "0 < m" using True by (simp add: m_def)
  have e: "exponent x = bitlen m - 1"
    using True by (simp add: exponent_def m_def)
  have b: "0 \<le> bitlen m - 1"
    using m bitlen_eq_zero_iff [of m] bitlen_nonneg [of m] by linarith
  have "(2::int) ^ nat (bitlen m - 1) \<le> m"
    using bitlen_bounds [OF m] by simp
  then have "(of_int ((2::int) ^ nat (bitlen m - 1)) :: rat) \<le> of_int m"
    by (simp only: of_int_le_iff)
  also have "\<dots> \<le> \<bar>x\<bar>" by (simp add: m_def)
  finally show ?thesis
    using b by (simp add: e power_int_nonneg_exp)
next
  case False
  define a where "a = \<bar>x\<bar>"
  have a: "0 < a" "a < 1" using assms False by (simp_all add: a_def)
  define m where "m = \<lceil>1 / a\<rceil> - 1"
  have "1 < 1 / a" using a by simp
  then have m: "0 < m" unfolding m_def by linarith
  have e: "exponent x = - bitlen m"
    using False by (simp add: exponent_def m_def a_def)
  have "m < 2 ^ nat (bitlen m)"
    using bitlen_bounds [OF m] by simp
  then have "m + 1 \<le> 2 ^ nat (bitlen m)" by simp
  then have "(of_int (m + 1) :: rat) \<le> of_int (2 ^ nat (bitlen m))"
    by (simp only: of_int_le_iff)
  moreover have "1 / a \<le> of_int (m + 1)"
    by (simp add: m_def)
  ultimately have "1 / a \<le> 2 ^ nat (bitlen m)" by simp
  then have "1 \<le> 2 ^ nat (bitlen m) * a"
    using a by (simp add: field_simps)
  then have "1 / 2 ^ nat (bitlen m) \<le> a"
    by (simp add: field_simps)
  moreover have "(2::rat) powi (- bitlen m) = 1 / 2 ^ nat (bitlen m)"
    using bitlen_nonneg [of m] by (simp add: power_int_minus_divide power_int_nonneg_exp)
  ultimately show ?thesis by (simp add: e a_def)
qed

lemma round_half_even_error: "\<bar>of_int (round_half_even y) - y\<bar> \<le> 1 / 2"
proof -
  define n where "n = \<lfloor>y\<rfloor>"
  have n: "of_int n \<le> y" "y < of_int n + 1" unfolding n_def by linarith+
  consider "y - of_int n < 1 / 2" | "1 / 2 < y - of_int n" | "y - of_int n = 1 / 2"
    by linarith
  then show ?thesis
  proof cases
    case 1
    then have "round_half_even y = n" by (simp add: round_half_even_def n_def)
    with 1 n show ?thesis by simp
  next
    case 2
    then have "round_half_even y = n + 1" by (simp add: round_half_even_def n_def)
    with 2 n show ?thesis by simp
  next
    case 3
    then have "round_half_even y = n \<or> round_half_even y = n + 1"
      by (simp add: round_half_even_def n_def Let_def)
    with 3 show ?thesis by auto
  qed
qed

lemma binary64_error:
  assumes "\<bar>x\<bar> \<le> 2 powi p"
  shows "\<bar>binary64 x - x\<bar> \<le> 2 powi (p - 53)"
proof (cases "x = 0")
  case True
  then show ?thesis by (simp add: binary64_def)
next
  case False
  define e where "e = exponent x"
  define ulp :: rat where "ulp = 2 powi (e - 52)"
  have ulp: "0 < ulp" by (simp add: ulp_def)
  have "(2::rat) powi e \<le> 2 powi p"
    using exponent_le [OF False] assms by (simp add: e_def)
  then have ep: "e \<le> p"
    using power_int_strict_increasing [of p e "2::rat"] by (cases "e \<le> p") auto
  have b: "binary64 x = of_int (round_half_even (x / ulp)) * ulp"
    using False by (simp add: binary64_def e_def ulp_def Let_def)
  have "binary64 x - x = (of_int (round_half_even (x / ulp)) - x / ulp) * ulp"
    using ulp by (simp add: b field_simps)
  then have "\<bar>binary64 x - x\<bar> = \<bar>of_int (round_half_even (x / ulp)) - x / ulp\<bar> * ulp"
    using ulp by (simp add: abs_mult)
  also have "\<dots> \<le> (1 / 2) * ulp"
    using round_half_even_error [of "x / ulp"] ulp by (intro mult_right_mono) simp_all
  also have "\<dots> = 2 powi (e - 53)"
  proof -
    have "(2::rat) powi (e - 52) = 2 powi (e - 53) * 2"
      using power_int_add [of "2::rat" "e - 53" 1] by simp
    then show ?thesis by (simp add: ulp_def)
  qed
  also have "\<dots> \<le> 2 powi (p - 53)"
    using ep by (intro power_int_increasing) simp_all
  finally show ?thesis .
qed

subsection \<open>The error of a sum\<close>

lemma js_sum_error:
  fixes ps :: "(rat \<times> rat) list"
  assumes "list_all (\<lambda>(w, t). \<bar>w - t\<bar> \<le> d) ps"
      and "(\<Sum>(w, t)\<leftarrow>ps. \<bar>t\<bar>) + of_nat (length ps) * (d + 2 powi (p - 53)) \<le> 2 powi p"
  shows "\<bar>foldl js_add 0 (map fst ps) - (\<Sum>(w, t)\<leftarrow>ps. t)\<bar>
           \<le> of_nat (length ps) * (d + 2 powi (p - 53))"
  using assms
proof (induction ps rule: rev_induct)
  case Nil
  show ?case by simp
next
  case (snoc wt ps)
  obtain w t where wt: "wt = (w, t)" by (cases wt)
  define u :: rat where "u = 2 powi (p - 53)"
  define acc where "acc = foldl js_add 0 (map fst ps)"
  define E where "E = (\<Sum>(w, t)\<leftarrow>ps. t)"
  define B where "B = (\<Sum>(w, t)\<leftarrow>ps. \<bar>t\<bar>)"
  define n :: rat where "n = of_nat (length ps)"
  have u: "0 < u" by (simp add: u_def)
  have n: "0 \<le> n" by (simp add: n_def)
  have w: "\<bar>w - t\<bar> \<le> d" using snoc.prems(1) by (simp add: wt)
  then have d: "0 \<le> d" by linarith
  have all: "list_all (\<lambda>(w, t). \<bar>w - t\<bar> \<le> d) ps" using snoc.prems(1) by simp
  have big: "B + \<bar>t\<bar> + (n + 1) * (d + u) \<le> 2 powi p"
    using snoc.prems(2) by (simp add: wt B_def n_def u_def algebra_simps)
  have nd: "0 \<le> n * (d + u)" using n d u by simp
  have "B + n * (d + u) \<le> 2 powi p"
  proof -
    have "B + n * (d + u) \<le> B + \<bar>t\<bar> + (n + 1) * (d + u)"
      using d u by (simp add: algebra_simps)
    with big show ?thesis by linarith
  qed
  then have IH: "\<bar>acc - E\<bar> \<le> n * (d + u)"
    using snoc.IH [OF all] by (simp add: acc_def E_def B_def n_def u_def)
  have EB: "\<bar>E\<bar> \<le> B"
    unfolding E_def B_def by (induction ps) (auto simp: abs_if split: if_splits)
  have "\<bar>acc + w\<bar> \<le> B + \<bar>t\<bar> + n * (d + u) + d"
    using IH EB w by linarith
  also have "\<dots> \<le> B + \<bar>t\<bar> + (n + 1) * (d + u)"
    using u by (simp add: algebra_simps)
  finally have "\<bar>acc + w\<bar> \<le> 2 powi p" using big by linarith
  then have r: "\<bar>binary64 (acc + w) - (acc + w)\<bar> \<le> u"
    unfolding u_def by (rule binary64_error)
  have "\<bar>binary64 (acc + w) - (E + t)\<bar> \<le> (n + 1) * (d + u)"
  proof -
    have "\<bar>binary64 (acc + w) - (E + t)\<bar> \<le> u + n * (d + u) + d"
      using r IH w by linarith
    then show ?thesis by (simp add: algebra_simps)
  qed
  moreover have "foldl js_add 0 (map fst (ps @ [wt])) = binary64 (acc + w)"
    unfolding acc_def wt js_add_def [symmetric] by simp
  moreover have "(\<Sum>(w, t)\<leftarrow>ps @ [wt]. t) = E + t"
    by (simp add: wt E_def)
  moreover have "(of_nat (length (ps @ [wt])) :: rat) = n + 1"
    by (simp add: n_def)
  ultimately show ?case
    unfolding u_def by (simp only:)
qed

section \<open>Proofs: the Balance Engine\<close>

subsection \<open>The accumulation computes the specified mapping\<close>

lemma get_or_0_empty: "get_or_0 Map.empty k = 0"
  by (simp add: get_or_0_def)

lemma get_or_0_upd: "get_or_0 (m(k \<mapsto> v)) k' = (if k' = k then v else get_or_0 m k')"
  by (simp add: get_or_0_def)

lemma subtract_split_refines:
  assumes "\<And>k. get_or_0 m k = acc k"
  shows "get_or_0 (subtract_split m s) k = spec_subtract_split acc s k"
  using assms by (simp add: subtract_split_def spec_subtract_split_def Let_def get_or_0_upd)

lemma foldl_subtract_split_refines:
  "(\<And>k. get_or_0 m k = acc k) \<Longrightarrow>
   get_or_0 (foldl subtract_split m ss) k = foldl spec_subtract_split acc ss k"
proof (induction ss arbitrary: m acc k)
  case Nil
  then show ?case by simp
next
  case (Cons s ss)
  have "\<And>j. get_or_0 (subtract_split m s) j = spec_subtract_split acc s j"
    using Cons.prems by (rule subtract_split_refines)
  then show ?case
    using Cons.IH by simp
qed

lemma add_expense_refines:
  assumes "\<And>k. get_or_0 m k = acc k"
  shows "get_or_0 (add_expense m e) k = spec_add_expense acc e k"
proof -
  have "\<And>j. get_or_0 (m(paid_by e \<mapsto> js_add (get_or_0 m (paid_by e)) (Number (expense_amount e)))) j
          = (acc(paid_by e := js_add (acc (paid_by e)) (Number (expense_amount e)))) j"
    using assms by (simp add: get_or_0_upd)
  then show ?thesis
    unfolding add_expense_def spec_add_expense_def Let_def
    by (rule foldl_subtract_split_refines)
qed

lemma foldl_add_expense_refines:
  "(\<And>k. get_or_0 m k = acc k) \<Longrightarrow>
   get_or_0 (foldl add_expense m es) k = foldl spec_add_expense acc es k"
proof (induction es arbitrary: m acc k)
  case Nil
  then show ?case by simp
next
  case (Cons e es)
  have "\<And>j. get_or_0 (add_expense m e) j = spec_add_expense acc e j"
    using Cons.prems by (rule add_expense_refines)
  then show ?case
    using Cons.IH by simp
qed

lemma accumulate_refines: "get_or_0 (accumulate es) k = spec_balances es k"
  unfolding accumulate_def spec_balances_def
  by (rule foldl_add_expense_refines) (simp add: get_or_0_empty)

lemma balance_entry_accumulate: "balance_entry (accumulate es) = spec_entry es"
  by (rule ext) (simp add: balance_entry_def spec_entry_def accumulate_refines)

lemma calculateBalances_rows:
  "calculateBalances (Some es) (Some ms) old = map (spec_entry es) ms"
  by (simp add: calculateBalances_def balance_entry_accumulate)


subsection \<open>The accumulator of one user\<close>

lemma js_sub_as_add: "js_sub a b = js_add a (- b)"
  by (simp add: js_sub_def js_add_def)

lemma own_Nil: "own u [] = []"
  by (simp add: own_def)

lemma own_Cons: "own u (x # xs) = (if fst x = u then snd x # own u xs else own u xs)"
  by (simp add: own_def)

lemma own_append: "own u (xs @ ys) = own u xs @ own u ys"
  by (simp add: own_def)

lemma spec_subtract_split_own:
  "foldl spec_subtract_split acc ss u
     = foldl js_add (acc u)
         (map fst (own u (map (\<lambda>s. (split_user_id s, - Number (split_amount s), - split_amount s)) ss)))"
  by (induction ss arbitrary: acc) (simp_all add: own_Nil own_Cons spec_subtract_split_def js_sub_as_add)

lemma spec_add_expense_own:
  "spec_add_expense acc e u = foldl js_add (acc u) (map fst (own u (updates_of e)))"
  by (simp add: spec_add_expense_def updates_of_def own_Cons spec_subtract_split_own)

lemma foldl_spec_add_expense_own:
  "foldl spec_add_expense acc es u = foldl js_add (acc u) (map fst (own u (updates es)))"
proof (induction es arbitrary: acc)
  case Nil
  show ?case by (simp add: updates_def own_Nil)
next
  case (Cons e es)
  have "foldl spec_add_expense acc (e # es) u
      = foldl js_add (spec_add_expense acc e u) (map fst (own u (updates es)))"
    by (simp add: Cons.IH)
  also have "\<dots> = foldl js_add (acc u) (map fst (own u (updates (e # es))))"
    unfolding spec_add_expense_own by (simp add: updates_def own_append)
  finally show ?case .
qed

lemma spec_balances_own:
  "spec_balances es u = foldl js_add 0 (map fst (own u (updates es)))"
  by (simp add: spec_balances_def foldl_spec_add_expense_own)

subsection \<open>The decimal sums of one user\<close>

lemma own_charge:
  "(\<Sum>(w, t)\<leftarrow>own u (map (\<lambda>s. (split_user_id s, - Number (split_amount s), - split_amount s)) ss). t)
     = - charge ss u"
  by (induction ss) (simp_all add: own_Nil own_Cons charge_def)

lemma own_updates_of:
  "(\<Sum>(w, t)\<leftarrow>own u (updates_of e). t)
     = (if paid_by e = u then expense_amount e else 0) - charge (expense_splits e) u"
  by (simp add: updates_of_def own_Cons own_charge)

lemma own_updates:
  "(\<Sum>(w, t)\<leftarrow>own u (updates es). t) = credit es u - debit es u"
  by (induction es) (simp_all add: updates_def own_Nil own_append own_updates_of credit_def debit_def)

lemma length_updates: "length (updates es) = update_count es"
  by (induction es) (simp_all add: updates_def update_count_def updates_of_def)

lemma magnitude_updates: "(\<Sum>(u, w, t)\<leftarrow>updates es. \<bar>t\<bar>) = magnitude es"
proof -
  have "(\<Sum>(u, w, t)\<leftarrow>map (\<lambda>s. (split_user_id s, - Number (split_amount s), - split_amount s)) ss. \<bar>t\<bar>)
      = (\<Sum>s\<leftarrow>ss. \<bar>split_amount s\<bar>)" for ss
    by (induction ss) simp_all
  then have "(\<Sum>(u, w, t)\<leftarrow>updates_of e. \<bar>t\<bar>)
      = \<bar>expense_amount e\<bar> + (\<Sum>s\<leftarrow>expense_splits e. \<bar>split_amount s\<bar>)" for e
    by (simp add: updates_of_def)
  then show ?thesis
    by (induction es) (simp_all add: updates_def magnitude_def)
qed

lemma own_length: "length (own u ups) \<le> length ups"
  by (simp add: own_def)

lemma own_magnitude: "(\<Sum>(w, t)\<leftarrow>own u ups. \<bar>t\<bar>) \<le> (\<Sum>(i, w, t)\<leftarrow>ups. \<bar>t\<bar>)"
  by (induction ups) (auto simp: own_Nil own_Cons)

lemma sum_abs_nonneg:
  fixes ups :: "(string \<times> rat \<times> rat) list"
  shows "0 \<le> (\<Sum>x\<leftarrow>ups. \<bar>snd (snd x)\<bar>)"
  by (induction ups) auto

lemma member_magnitude:
  fixes ups :: "(string \<times> rat \<times> rat) list"
  shows "x \<in> set ups \<Longrightarrow> \<bar>snd (snd x)\<bar> \<le> (\<Sum>(i, w, t)\<leftarrow>ups. \<bar>t\<bar>)"
proof (induction ups)
  case Nil
  then show ?case by simp
next
  case (Cons y ups)
  from Cons sum_abs_nonneg [of ups] show ?case by (auto simp: case_prod_beta)
qed

lemma updates_converted:
  "x \<in> set (updates es) \<Longrightarrow>
     fst (snd x) = binary64 (snd (snd x)) \<or> fst (snd x) = - binary64 (- snd (snd x))"
  by (auto simp: updates_def updates_of_def Number_def)

lemma own_converted:
  assumes "magnitude es \<le> 2 powi p"
  shows "list_all (\<lambda>(w, t). \<bar>w - t\<bar> \<le> 2 powi (p - 53)) (own u (updates es))"
proof -
  have "\<bar>fst (snd x) - snd (snd x)\<bar> \<le> 2 powi (p - 53)" if x: "x \<in> set (updates es)" for x
  proof -
    have t: "\<bar>snd (snd x)\<bar> \<le> 2 powi p"
      using member_magnitude [OF x] assms by (simp add: magnitude_updates)
    then have "\<bar>binary64 (snd (snd x)) - snd (snd x)\<bar> \<le> 2 powi (p - 53)"
      by (rule binary64_error)
    moreover from t have "\<bar>binary64 (- snd (snd x)) - (- snd (snd x))\<bar> \<le> 2 powi (p - 53)"
      by (intro binary64_error) simp
    ultimately show ?thesis
      using updates_converted [OF x] by (auto simp: abs_if split: if_splits)
  qed
  then show ?thesis
    by (auto simp: list_all_iff own_def case_prod_beta)
qed

subsection \<open>The drift of one accumulator\<close>

lemma powi_half: "(2::rat) powi (p - 1) * 2 = 2 powi p"
  using power_int_add [of "2::rat" "p - 1" 1] by simp

lemma powi_53_52: "(2::rat) powi (p - 53) * 2 = 2 powi (p - 52)"
  using power_int_add [of "2::rat" "p - 53" 1] by simp

lemma powi_52_51: "(2::rat) powi (p - 52) * 2 ^ 51 = 2 powi (p - 1)"
  using power_int_add [of "2::rat" "p - 52" 51] by simp

lemma accumulator_drift:
  assumes "magnitude es \<le> 2 powi (p - 1)" and "update_count es \<le> 2 ^ 51"
  shows "\<bar>spec_balances es u - (credit es u - debit es u)\<bar>
           \<le> of_nat (length (own u (updates es))) * 2 powi (p - 52)"
proof -
  define ps where "ps = own u (updates es)"
  define h :: rat where "h = 2 powi (p - 1)"
  have h: "0 < h" "2 powi p = h * 2" by (simp_all add: h_def powi_half)
  have mag: "magnitude es \<le> 2 powi p"
  proof -
    have "magnitude es \<le> h" using assms(1) by (simp add: h_def)
    with h show ?thesis by linarith
  qed
  have conv: "list_all (\<lambda>(w, t). \<bar>w - t\<bar> \<le> 2 powi (p - 53)) ps"
    unfolding ps_def using mag by (rule own_converted)
  have two: "2 powi (p - 53) + 2 powi (p - 53) = (2::rat) powi (p - 52)"
    using powi_53_52 [of p] by simp
  have "length ps \<le> update_count es"
    using own_length [of u "updates es"] by (simp add: ps_def length_updates)
  then have "length ps \<le> 2 ^ 51" using assms(2) by (rule order_trans)
  then have "(of_nat (length ps) :: rat) \<le> of_nat (2 ^ 51)"
    by (simp only: of_nat_le_iff)
  then have "(of_nat (length ps) :: rat) \<le> 2 ^ 51"
    by (simp only: of_nat_power of_nat_numeral)
  then have "of_nat (length ps) * 2 powi (p - 52) \<le> 2 ^ 51 * (2::rat) powi (p - 52)"
    by (rule mult_right_mono) simp
  also have "\<dots> = 2 powi (p - 52) * 2 ^ 51" by (rule mult.commute)
  also have "\<dots> = h" unfolding h_def by (rule powi_52_51)
  finally have n: "of_nat (length ps) * 2 powi (p - 52) \<le> h" .
  have "(\<Sum>(w, t)\<leftarrow>ps. \<bar>t\<bar>) \<le> h"
    using own_magnitude [of u "updates es"] assms(1) by (simp add: ps_def magnitude_updates h_def)
  with n have "(\<Sum>(w, t)\<leftarrow>ps. \<bar>t\<bar>) + of_nat (length ps) * (2 powi (p - 53) + 2 powi (p - 53)) \<le> 2 powi p"
    unfolding two h(2) by linarith
  from js_sum_error [OF conv this]
  have "\<bar>foldl js_add 0 (map fst ps) - (\<Sum>(w, t)\<leftarrow>ps. t)\<bar> \<le> of_nat (length ps) * 2 powi (p - 52)"
    unfolding two .
  then show ?thesis
    by (simp add: ps_def spec_balances_own own_updates)
qed

subsection \<open>The sum of the output balances\<close>

lemma sum_indicator:
  "distinct us \<Longrightarrow> (\<Sum>u\<leftarrow>us. if x = u then (a::rat) else 0) = (if x \<in> set us then a else 0)"
  by (induction us) auto

lemma sum_credit:
  assumes "distinct us"
  shows "(\<Sum>u\<leftarrow>us. credit es u) = (\<Sum>e\<leftarrow>es. if paid_by e \<in> set us then expense_amount e else 0)"
proof (induction es)
  case Nil
  show ?case by (simp add: credit_def)
next
  case (Cons e es)
  have "(\<Sum>u\<leftarrow>us. credit (e # es) u)
      = (\<Sum>u\<leftarrow>us. if paid_by e = u then expense_amount e else 0) + (\<Sum>u\<leftarrow>us. credit es u)"
    by (simp add: credit_def sum_list_addf)
  then show ?case
    using Cons.IH sum_indicator [OF assms] by simp
qed

lemma sum_charge:
  assumes "distinct us"
  shows "(\<Sum>u\<leftarrow>us. charge ss u) = (\<Sum>s\<leftarrow>ss. if split_user_id s \<in> set us then split_amount s else 0)"
proof (induction ss)
  case Nil
  show ?case by (simp add: charge_def)
next
  case (Cons s ss)
  have "(\<Sum>u\<leftarrow>us. charge (s # ss) u)
      = (\<Sum>u\<leftarrow>us. if split_user_id s = u then split_amount s else 0) + (\<Sum>u\<leftarrow>us. charge ss u)"
    by (simp add: charge_def sum_list_addf)
  then show ?case
    using Cons.IH sum_indicator [OF assms] by simp
qed

lemma sum_debit:
  assumes "distinct us"
  shows "(\<Sum>u\<leftarrow>us. debit es u)
       = (\<Sum>e\<leftarrow>es. \<Sum>s\<leftarrow>expense_splits e. if split_user_id s \<in> set us then split_amount s else 0)"
proof (induction es)
  case Nil
  show ?case by (simp add: debit_def)
next
  case (Cons e es)
  have "(\<Sum>u\<leftarrow>us. debit (e # es) u)
      = (\<Sum>u\<leftarrow>us. charge (expense_splits e) u) + (\<Sum>u\<leftarrow>us. debit es u)"
    by (simp add: debit_def sum_list_addf)
  then show ?case
    using Cons.IH sum_charge [OF assms] by simp
qed

lemma sum_member_share:
  assumes "distinct us"
  shows "(\<Sum>u\<leftarrow>us. credit es u - debit es u) = (\<Sum>e\<leftarrow>es. member_share us e)"
  by (simp add: sum_list_subtractf sum_credit [OF assms] sum_debit [OF assms] member_share_def)

lemma own_count:
  assumes "distinct us"
  shows "(\<Sum>u\<leftarrow>us. length (own u ups)) \<le> length ups"
proof (induction ups)
  case Nil
  show ?case by (simp add: own_Nil)
next
  case (Cons x ups)
  have "(\<Sum>u\<leftarrow>us. length (own u (x # ups)))
      = (\<Sum>u\<leftarrow>us. (if fst x = u then 1 else 0) + length (own u ups))"
    by (intro arg_cong [where f = sum_list] map_cong) (auto simp: own_Cons)
  also have "\<dots> = (\<Sum>u\<leftarrow>us. if fst x = u then 1 else 0) + (\<Sum>u\<leftarrow>us. length (own u ups))"
    by (simp add: sum_list_addf)
  also have "(\<Sum>u\<leftarrow>us. if fst x = u then 1 else 0) \<le> (1::nat)"
    using assms by (induction us) auto
  finally show ?case using Cons.IH by simp
qed

lemma total_balance_ids:
  "total_balance (calculateBalances (Some es) (Some ms) old)
     = (\<Sum>u\<leftarrow>member_ids ms. spec_balances es u)"
  by (simp add: total_balance_def calculateBalances_rows spec_entry_def member_ids_def comp_def)

lemma total_balance_drift:
  assumes "distinct (member_ids ms)"
      and "magnitude es \<le> 2 powi (p - 1)" and "update_count es \<le> 2 ^ 51"
  shows "\<bar>total_balance (calculateBalances (Some es) (Some ms) old)
           - (\<Sum>e\<leftarrow>es. member_share (member_ids ms) e)\<bar>
         \<le> of_nat (update_count es) * 2 powi (p - 52)"
proof -
  define us where "us = member_ids ms"
  define c :: rat where "c = 2 powi (p - 52)"
  have c: "0 \<le> c" by (simp add: c_def)
  have "(\<Sum>e\<leftarrow>es. member_share us e) = (\<Sum>u\<leftarrow>us. credit es u - debit es u)"
    unfolding us_def using assms(1) by (rule sum_member_share [symmetric])
  then have "total_balance (calculateBalances (Some es) (Some ms) old) - (\<Sum>e\<leftarrow>es. member_share us e)
      = (\<Sum>u\<leftarrow>us. spec_balances es u - (credit es u - debit es u))"
    unfolding total_balance_ids us_def [symmetric]
    using sum_list_subtractf [of "spec_balances es" "\<lambda>u. credit es u - debit es u" us] by simp
  also have "\<bar>\<dots>\<bar> \<le> (\<Sum>u\<leftarrow>us. \<bar>spec_balances es u - (credit es u - debit es u)\<bar>)"
    using sum_list_abs [of "map (\<lambda>u. spec_balances es u - (credit es u - debit es u)) us"]
    by (simp add: comp_def)
  also have "\<dots> \<le> (\<Sum>u\<leftarrow>us. of_nat (length (own u (updates es))) * c)"
    unfolding c_def by (intro sum_list_mono accumulator_drift assms(2,3))
  also have "\<dots> = of_nat (\<Sum>u\<leftarrow>us. length (own u (updates es))) * c"
    by (induction us) (simp_all add: algebra_simps)
  also have "\<dots> \<le> of_nat (update_count es) * c"
    using own_count [of us "updates es"] assms(1) c
    by (intro mult_right_mono) (simp_all add: us_def length_updates)
  finally show ?thesis by (simp add: us_def c_def)
qed

lemma member_share_within:
  "within_group ms e \<Longrightarrow> member_share (member_ids ms) e = expense_amount e - split_total e"
proof -
  assume w: "within_group ms e"
  have "(\<Sum>s\<leftarrow>expense_splits e. if split_user_id s \<in> set (member_ids ms) then split_amount s else 0)
      = (\<Sum>s\<leftarrow>expense_splits e. split_amount s)"
    using w by (intro arg_cong [where f = sum_list] map_cong) (auto simp: within_group_def list_all_iff)
  then show ?thesis using w by (simp add: member_share_def split_total_def within_group_def)
qed

lemma sum_list_abs_bound:
  "list_all (\<lambda>x. \<bar>f x\<bar> \<le> (c::rat)) xs \<Longrightarrow> \<bar>\<Sum>x\<leftarrow>xs. f x\<bar> \<le> of_nat (length xs) * c"
proof (induction xs)
  case Nil
  show ?case by simp
next
  case (Cons x xs)
  then have "\<bar>f x\<bar> \<le> c" "\<bar>\<Sum>x\<leftarrow>xs. f x\<bar> \<le> of_nat (length xs) * c" by simp_all
  then show ?case by (simp add: algebra_simps)
qed

subsection \<open>Members without activity\<close>

lemma own_inactive: "inactive es u \<Longrightarrow> own u (updates es) = []"
proof (induction es)
  case Nil
  show ?case by (simp add: updates_def own_Nil)
next
  case (Cons e es)
  then have "paid_by e \<noteq> u" and s: "list_all (\<lambda>s. split_user_id s \<noteq> u) (expense_splits e)"
    and "own u (updates es) = []"
    by (simp_all add: inactive_def)
  moreover have "own u (map (\<lambda>s. (split_user_id s, - Number (split_amount s), - split_amount s)) ss) = []"
    if "list_all (\<lambda>s. split_user_id s \<noteq> u) ss" for ss
    using that by (induction ss) (simp_all add: own_Nil own_Cons)
  ultimately show ?case
    by (simp add: updates_def own_append updates_of_def own_Cons)
qed

lemma spec_balances_inactive: "inactive es u \<Longrightarrow> spec_balances es u = 0"
  by (simp add: spec_balances_own own_inactive)

lemma calculateBalances_user_ids:
  "map user_id (calculateBalances (Some es) (Some ms) old) = member_ids ms"
  by (simp add: calculateBalances_rows spec_entry_def member_ids_def comp_def)

lemma calculateBalances_balances:
  "map balance (calculateBalances (Some es) (Some ms) old)
     = map (\<lambda>u. foldl js_add 0 (map fst (own u (updates es)))) (member_ids ms)"
  by (simp add: calculateBalances_rows spec_entry_def member_ids_def comp_def spec_balances_own)

text \<open>
  Claim C7. With zero expenses every member's entry has balance exactly 0. With any
  expenses, the output has one entry per member row, and the entry of a member who
  paid nothing and has no split is that member's entry with balance exactly 0.
\<close>

theorem C7_no_activity_zero_balance:
  "calculateBalances (Some []) (Some ms) old = map zero_entry ms \<and>
   length (calculateBalances (Some es) (Some ms) old) = length ms \<and>
   (\<forall>i < length ms. inactive es (member_user_id (ms ! i)) \<longrightarrow>
      calculateBalances (Some es) (Some ms) old ! i = zero_entry (ms ! i))"
proof (intro conjI allI impI)
  show "calculateBalances (Some []) (Some ms) old = map zero_entry ms"
    by (simp add: calculateBalances_rows spec_entry_def zero_entry_def spec_balances_def cong: map_cong)
  show "length (calculateBalances (Some es) (Some ms) old) = length ms"
    by (simp add: calculateBalances_rows)
  fix i
  assume "i < length ms" and "inactive es (member_user_id (ms ! i))"
  then show "calculateBalances (Some es) (Some ms) old ! i = zero_entry (ms ! i)"
    by (simp add: calculateBalances_rows spec_entry_def zero_entry_def spec_balances_inactive)
qed

lemmas example_defs = group_member_def split_of_def expense_of_def member_ids_def

text \<open>
  At a concrete group: C took no part in the two scenario expenses and is listed with
  balance 0; a group without expenses lists A and B with balance 0.
\<close>

theorem C7_no_activity_zero_balance_witness:
  "(2::nat) < length [group_member ''A'', group_member ''B'', group_member ''C''] \<and>
   inactive scenario_expenses (member_user_id ([group_member ''A'', group_member ''B'', group_member ''C''] ! 2)) \<and>
   calculateBalances (Some scenario_expenses) (Some [group_member ''A'', group_member ''B'', group_member ''C'']) [] ! 2
     = \<lparr>user_id = ''C'', user_name = ''Unknown'', user_email = ''C@example.org'', balance = 0\<rparr> \<and>
   calculateBalances (Some []) (Some [group_member ''A'', group_member ''B'']) []
     = [\<lparr>user_id = ''A'', user_name = ''Unknown'', user_email = ''A@example.org'', balance = 0\<rparr>,
        \<lparr>user_id = ''B'', user_name = ''Unknown'', user_email = ''B@example.org'', balance = 0\<rparr>]"
proof -
  have i: "(2::nat) < length [group_member ''A'', group_member ''B'', group_member ''C'']" by simp
  have h: "inactive scenario_expenses (member_user_id ([group_member ''A'', group_member ''B'', group_member ''C''] ! 2))"
    by (simp add: example_defs scenario_expenses_def inactive_def)
  from C7_no_activity_zero_balance [of "[group_member ''A'', group_member ''B'', group_member ''C'']" "[]" scenario_expenses]
  have "calculateBalances (Some scenario_expenses) (Some [group_member ''A'', group_member ''B'', group_member ''C'']) [] ! 2
        = zero_entry ([group_member ''A'', group_member ''B'', group_member ''C''] ! 2)"
    using i h by blast
  moreover from C7_no_activity_zero_balance [of "[group_member ''A'', group_member ''B'']" "[]" "[]"]
  have "calculateBalances (Some []) (Some [group_member ''A'', group_member ''B'']) []
        = map zero_entry [group_member ''A'', group_member ''B'']" by blast
  ultimately show ?thesis using i h
    by (simp add: zero_entry_def group_member_def name_or_unknown_def)
qed

subsection \<open>The balances of a group sum to its total discrepancy, up to rounding\<close>

text \<open>
  Two expenses of 10.00 paid by A, each with splits 5.00 for A and 4.99 for B, so each
  within the tolerance of 0.01, and A and B the members: the balances, 10 and the
  number nearest to 4.99 doubled and negated, sum to a little less than 0.02, which
  is more than 0.01.
\<close>

theorem C2_counterexample:
  "distinct (member_ids [group_member ''A'', group_member ''B'']) \<and>
   list_all (within_group [group_member ''A'', group_member ''B'']) rounded_expenses \<and>
   list_all reconciles rounded_expenses \<and>
   map balance (calculateBalances (Some rounded_expenses) (Some [group_member ''A'', group_member ''B'']) [])
     = [10, - (5618240535144694 / 2 ^ 49)] \<and>
   total_balance (calculateBalances (Some rounded_expenses) (Some [group_member ''A'', group_member ''B'']) [])
     = 11258999068426 / 2 ^ 49 \<and>
   \<not> \<bar>total_balance (calculateBalances (Some rounded_expenses) (Some [group_member ''A'', group_member ''B'']) [])\<bar>
       \<le> 1 / 100"
proof -
  have b: "map balance (calculateBalances (Some rounded_expenses) (Some [group_member ''A'', group_member ''B'']) [])
     = [10, - (5618240535144694 / 2 ^ 49)]"
    unfolding calculateBalances_balances by code_simp
  have "distinct (member_ids [group_member ''A'', group_member ''B''])"
    by (simp add: example_defs)
  moreover have "list_all (within_group [group_member ''A'', group_member ''B'']) rounded_expenses"
    by (simp add: example_defs rounded_expenses_def within_group_def)
  moreover have "list_all reconciles rounded_expenses"
    by (simp add: example_defs rounded_expenses_def reconciles_def split_total_def)
  ultimately show ?thesis
    unfolding total_balance_def b by simp
qed

text \<open>
  Claim C2, amended. For distinct member ids, when every payer and every split user
  is a member, all amounts together are at most \<open>2\<^sup>p\<^sup>-\<^sup>1\<close> in size and there are
  \<open>n\<close> accumulator updates, the output balances sum to the sum over the expenses of
  total minus splits, up to a rounding drift of at most \<open>n \<sqdot> 2\<^sup>p\<^sup>-\<^sup>5\<^sup>2\<close>. So the sum
  is within the drift of zero when every expense's splits sum exactly to its total,
  and within 0.01 times the number of expenses plus the drift when each expense
  reconciles within 0.01.
\<close>

theorem C2_total_balance_is_total_discrepancy:
  assumes "distinct (member_ids ms)" and "list_all (within_group ms) es"
      and "magnitude es \<le> 2 powi (p - 1)" and "update_count es \<le> 2 ^ 51" and "p \<le> 1023"
  shows "\<bar>total_balance (calculateBalances (Some es) (Some ms) old)
            - (\<Sum>e\<leftarrow>es. expense_amount e - split_total e)\<bar>
           \<le> of_nat (update_count es) * 2 powi (p - 52) \<and>
         (list_all reconciles_exactly es \<longrightarrow>
            \<bar>total_balance (calculateBalances (Some es) (Some ms) old)\<bar>
              \<le> of_nat (update_count es) * 2 powi (p - 52)) \<and>
         (list_all reconciles es \<longrightarrow>
            \<bar>total_balance (calculateBalances (Some es) (Some ms) old)\<bar>
              \<le> of_nat (length es) * (1 / 100) + of_nat (update_count es) * 2 powi (p - 52))"
proof (intro conjI impI)
  have "(\<Sum>e\<leftarrow>es. member_share (member_ids ms) e) = (\<Sum>e\<leftarrow>es. expense_amount e - split_total e)"
    using assms(2) by (intro arg_cong [where f = sum_list] map_cong) (auto simp: list_all_iff member_share_within)
  then show eq: "\<bar>total_balance (calculateBalances (Some es) (Some ms) old)
            - (\<Sum>e\<leftarrow>es. expense_amount e - split_total e)\<bar>
           \<le> of_nat (update_count es) * 2 powi (p - 52)"
    using total_balance_drift [OF assms(1,3,4), of old] by simp
  {
    assume "list_all reconciles_exactly es"
    then have "(\<Sum>e\<leftarrow>es. expense_amount e - split_total e) = 0"
      by (induction es) (simp_all add: reconciles_exactly_def)
    then show "\<bar>total_balance (calculateBalances (Some es) (Some ms) old)\<bar>
              \<le> of_nat (update_count es) * 2 powi (p - 52)"
      using eq by simp
  }
  {
    assume "list_all reconciles es"
    then have "list_all (\<lambda>e. \<bar>expense_amount e - split_total e\<bar> \<le> 1 / 100) es"
      by (simp add: list_all_iff reconciles_def abs_minus_commute)
    then have "\<bar>\<Sum>e\<leftarrow>es. expense_amount e - split_total e\<bar> \<le> of_nat (length es) * (1 / 100)"
      by (rule sum_list_abs_bound)
    then show "\<bar>total_balance (calculateBalances (Some es) (Some ms) old)\<bar>
              \<le> of_nat (length es) * (1 / 100) + of_nat (update_count es) * 2 powi (p - 52)"
      using eq by linarith
  }
qed

text \<open>
  At the scenario expenses of members A and B, with \<open>p = 10\<close>: the balances are 25
  and -25, their sum is 0.
\<close>

theorem C2_total_balance_is_total_discrepancy_witness:
  "distinct (member_ids [group_member ''A'', group_member ''B'']) \<and>
   list_all (within_group [group_member ''A'', group_member ''B'']) scenario_expenses \<and>
   magnitude scenario_expenses = 300 \<and> (300 :: rat) \<le> 2 powi (10 - 1) \<and>
   update_count scenario_expenses = 6 \<and> (6 :: nat) \<le> 2 ^ 51 \<and> (10 :: int) \<le> 1023 \<and>
   list_all reconciles_exactly scenario_expenses \<and>
   list_all reconciles scenario_expenses \<and>
   map balance (calculateBalances (Some scenario_expenses) (Some [group_member ''A'', group_member ''B'']) []) = [25, - 25] \<and>
   \<bar>total_balance (calculateBalances (Some scenario_expenses) (Some [group_member ''A'', group_member ''B'']) [])\<bar>
     \<le> 6 * 2 powi (10 - 52)"
proof -
  have d: "distinct (member_ids [group_member ''A'', group_member ''B''])"
    by (simp add: example_defs)
  have w: "list_all (within_group [group_member ''A'', group_member ''B'']) scenario_expenses"
    by (simp add: example_defs scenario_expenses_def within_group_def)
  have m: "magnitude scenario_expenses = 300"
    by (simp add: example_defs scenario_expenses_def magnitude_def)
  have n: "update_count scenario_expenses = 6"
    by (simp add: example_defs scenario_expenses_def update_count_def)
  have m': "magnitude scenario_expenses \<le> 2 powi (10 - 1)" unfolding m by simp
  have n': "update_count scenario_expenses \<le> 2 ^ 51" unfolding n by simp
  have x: "list_all reconciles_exactly scenario_expenses"
    by (simp add: example_defs scenario_expenses_def reconciles_exactly_def split_total_def)
  have r: "list_all reconciles scenario_expenses"
    by (simp add: example_defs scenario_expenses_def reconciles_def split_total_def)
  have b: "map balance (calculateBalances (Some scenario_expenses) (Some [group_member ''A'', group_member ''B'']) []) = [25, - 25]"
    unfolding calculateBalances_balances by code_simp
  have "\<bar>total_balance (calculateBalances (Some scenario_expenses) (Some [group_member ''A'', group_member ''B'']) [])\<bar>
     \<le> of_nat (update_count scenario_expenses) * 2 powi (10 - 52)"
    using C2_total_balance_is_total_discrepancy [OF d w m' n', of "[]"] x by simp
  then show ?thesis
    using d w m n x r b by simp
qed

subsection \<open>One entry per member row\<close>

text \<open>
  Claim C10. The output lists exactly the member rows, in their order: its user ids
  are the member ids. For distinct member ids, its balances sum, up to the rounding
  drift, to what the expenses credit and charge to members; credits and charges of
  other ids do not reach it. In the example, an expense of 60 paid by A with splits
  of 30 for A and 30 for the non-member X reconciles exactly, X is accumulated at
  -30, the output lists only A and B, with balances 30 and 0, which do not sum to
  zero.
\<close>

theorem C10_one_entry_per_member_row:
  "map user_id (calculateBalances (Some es) (Some ms) old) = member_ids ms \<and>
   (distinct (member_ids ms) \<and> magnitude es \<le> 2 powi (p - 1) \<and> update_count es \<le> 2 ^ 51 \<and> p \<le> 1023 \<longrightarrow>
      \<bar>total_balance (calculateBalances (Some es) (Some ms) old)
         - (\<Sum>e\<leftarrow>es. member_share (member_ids ms) e)\<bar>
        \<le> of_nat (update_count es) * 2 powi (p - 52)) \<and>
   (list_all reconciles_exactly outsider_expenses \<and>
    get_or_0 (accumulate outsider_expenses) ''X'' = - 30 \<and>
    map user_id (calculateBalances (Some outsider_expenses) (Some [group_member ''A'', group_member ''B'']) [])
      = [''A'', ''B''] \<and>
    map balance (calculateBalances (Some outsider_expenses) (Some [group_member ''A'', group_member ''B'']) [])
      = [30, 0])"
proof (intro conjI impI)
  show "map user_id (calculateBalances (Some es) (Some ms) old) = member_ids ms"
    by (rule calculateBalances_user_ids)
  show "\<bar>total_balance (calculateBalances (Some es) (Some ms) old)
         - (\<Sum>e\<leftarrow>es. member_share (member_ids ms) e)\<bar>
        \<le> of_nat (update_count es) * 2 powi (p - 52)"
    if "distinct (member_ids ms) \<and> magnitude es \<le> 2 powi (p - 1) \<and> update_count es \<le> 2 ^ 51 \<and> p \<le> 1023"
    using that by (intro total_balance_drift) simp_all
  show "list_all reconciles_exactly outsider_expenses"
    by (simp add: example_defs outsider_expenses_def reconciles_exactly_def split_total_def)
  show "get_or_0 (accumulate outsider_expenses) ''X'' = - 30"
    unfolding accumulate_refines spec_balances_own by code_simp
  show "map user_id (calculateBalances (Some outsider_expenses) (Some [group_member ''A'', group_member ''B'']) [])
      = [''A'', ''B'']"
    by (simp add: calculateBalances_user_ids example_defs)
  show "map balance (calculateBalances (Some outsider_expenses) (Some [group_member ''A'', group_member ''B'']) [])
      = [30, 0]"
    unfolding calculateBalances_balances by code_simp
qed

text \<open>At members A and B, whose ids are distinct, with \<open>p = 8\<close>: the balances sum to 30.\<close>

theorem C10_one_entry_per_member_row_witness:
  "distinct (member_ids [group_member ''A'', group_member ''B'']) \<and>
   magnitude outsider_expenses = 120 \<and> (120 :: rat) \<le> 2 powi (8 - 1) \<and>
   update_count outsider_expenses = 3 \<and> (3 :: nat) \<le> 2 ^ 51 \<and> (8 :: int) \<le> 1023 \<and>
   (\<Sum>e\<leftarrow>outsider_expenses. member_share (member_ids [group_member ''A'', group_member ''B'']) e) = 30 \<and>
   \<bar>total_balance (calculateBalances (Some outsider_expenses) (Some [group_member ''A'', group_member ''B'']) []) - 30\<bar>
     \<le> 3 * 2 powi (8 - 52)"
proof -
  have d: "distinct (member_ids [group_member ''A'', group_member ''B''])"
    by (simp add: example_defs)
  have m: "magnitude outsider_expenses = 120"
    by (simp add: example_defs outsider_expenses_def magnitude_def)
  have n: "update_count outsider_expenses = 3"
    by (simp add: example_defs outsider_expenses_def update_count_def)
  have s: "(\<Sum>e\<leftarrow>outsider_expenses. member_share (member_ids [group_member ''A'', group_member ''B'']) e) = 30"
    by (simp add: example_defs outsider_expenses_def member_share_def)
  have "\<bar>total_balance (calculateBalances (Some outsider_expenses) (Some [group_member ''A'', group_member ''B'']) [])
         - (\<Sum>e\<leftarrow>outsider_expenses. member_share (member_ids [group_member ''A'', group_member ''B'']) e)\<bar>
        \<le> of_nat (update_count outsider_expenses) * 2 powi (8 - 52)"
    using C10_one_entry_per_member_row [of outsider_expenses "[group_member ''A'', group_member ''B'']" "[]" 8] d m n
    by simp
  then show ?thesis
    using d m n s by simp
qed

subsection \<open>Accumulation in binary floating point\<close>

text \<open>
  Three expenses of 0.10 paid by A for B. In decimal arithmetic A is owed 0.30. The
  engine's balance of A is 0.30000000000000004, one unit in the last place above
  the number nearest to 0.30.
\<close>

theorem C6_counterexample:
  "credit dime_expenses ''A'' - debit dime_expenses ''A'' = 3 / 10 \<and>
   map balance (calculateBalances (Some dime_expenses) (Some [group_member ''A'', group_member ''B'']) [])
     = [5404319552844596 / 2 ^ 54, - (5404319552844596 / 2 ^ 54)] \<and>
   Number (3 / 10) = 5404319552844595 / 2 ^ 54 \<and>
   (5404319552844596 / 2 ^ 54 :: rat) \<noteq> 3 / 10"
proof -
  have "credit dime_expenses ''A'' - debit dime_expenses ''A'' = 3 / 10"
    by (simp add: example_defs dime_expenses_def credit_def debit_def charge_def)
  moreover have "map balance (calculateBalances (Some dime_expenses) (Some [group_member ''A'', group_member ''B'']) [])
     = [5404319552844596 / 2 ^ 54, - (5404319552844596 / 2 ^ 54)]"
    unfolding calculateBalances_balances by code_simp
  moreover have "Number (3 / 10) = 5404319552844595 / 2 ^ 54"
    by code_simp
  ultimately show ?thesis by simp
qed

text \<open>
  Claim C6, amended. The Balance Engine accumulates in binary floating point: the
  balance of a member is the chain of binary64 additions of that member's converted
  credits and negated charges, in expense order, and nothing else rounds it. It
  differs from the decimal sum of the credits and charges by at most \<open>n \<sqdot> 2\<^sup>p\<^sup>-\<^sup>5\<^sup>2\<close>
  when there are \<open>n\<close> accumulator updates and all amounts together are at most
  \<open>2\<^sup>p\<^sup>-\<^sup>1\<close> in size.
\<close>

theorem C6_binary64_accumulation:
  "(\<forall>i < length ms.
      balance (calculateBalances (Some es) (Some ms) old ! i)
        = foldl js_add 0 (map fst (own (member_user_id (ms ! i)) (updates es)))) \<and>
   (magnitude es \<le> 2 powi (p - 1) \<and> update_count es \<le> 2 ^ 51 \<and> p \<le> 1023 \<longrightarrow>
      (\<forall>i < length ms.
         \<bar>balance (calculateBalances (Some es) (Some ms) old ! i)
            - (credit es (member_user_id (ms ! i)) - debit es (member_user_id (ms ! i)))\<bar>
           \<le> of_nat (update_count es) * 2 powi (p - 52)))"
proof (intro conjI impI allI)
  fix i
  assume i: "i < length ms"
  then show "balance (calculateBalances (Some es) (Some ms) old ! i)
        = foldl js_add 0 (map fst (own (member_user_id (ms ! i)) (updates es)))"
    by (simp add: calculateBalances_rows spec_entry_def spec_balances_own)
next
  fix i
  assume h: "magnitude es \<le> 2 powi (p - 1) \<and> update_count es \<le> 2 ^ 51 \<and> p \<le> 1023"
    and i: "i < length ms"
  define u where "u = member_user_id (ms ! i)"
  have "\<bar>spec_balances es u - (credit es u - debit es u)\<bar>
          \<le> of_nat (length (own u (updates es))) * 2 powi (p - 52)"
    using h by (intro accumulator_drift) simp_all
  also have "\<dots> \<le> of_nat (update_count es) * 2 powi (p - 52)"
    using own_length [of u "updates es"]
    by (intro mult_right_mono) (simp_all add: length_updates)
  finally show "\<bar>balance (calculateBalances (Some es) (Some ms) old ! i)
            - (credit es (member_user_id (ms ! i)) - debit es (member_user_id (ms ! i)))\<bar>
           \<le> of_nat (update_count es) * 2 powi (p - 52)"
    using i by (simp add: calculateBalances_rows spec_entry_def u_def)
qed

text \<open>
  At the three expenses of 0.10, with \<open>p = 1\<close>: the balance of A is within
  \<open>6 \<sqdot> 2\<^sup>-\<^sup>5\<^sup>1\<close> of 0.30.
\<close>

theorem C6_binary64_accumulation_witness:
  "(0 :: nat) < length [group_member ''A'', group_member ''B''] \<and>
   magnitude dime_expenses = 6 / 10 \<and> (6 / 10 :: rat) \<le> 2 powi (1 - 1) \<and>
   update_count dime_expenses = 6 \<and> (6 :: nat) \<le> 2 ^ 51 \<and> (1 :: int) \<le> 1023 \<and>
   \<bar>balance (calculateBalances (Some dime_expenses) (Some [group_member ''A'', group_member ''B'']) [] ! 0) - 3 / 10\<bar>
     \<le> 6 * 2 powi (1 - 52)"
proof -
  have i: "(0 :: nat) < length [group_member ''A'', group_member ''B'']" by simp
  have m: "magnitude dime_expenses = 6 / 10"
    by (simp add: example_defs dime_expenses_def magnitude_def)
  have n: "update_count dime_expenses = 6"
    by (simp add: example_defs dime_expenses_def update_count_def)
  have c: "credit dime_expenses ''A'' - debit dime_expenses ''A'' = 3 / 10"
    by (simp add: example_defs dime_expenses_def credit_def debit_def charge_def)
  have h: "magnitude dime_expenses \<le> 2 powi (1 - 1) \<and> update_count dime_expenses \<le> 2 ^ 51 \<and> (1 :: int) \<le> 1023"
    unfolding m n by simp
  have "\<bar>balance (calculateBalances (Some dime_expenses) (Some [group_member ''A'', group_member ''B'']) [] ! 0)
            - (credit dime_expenses (member_user_id ([group_member ''A'', group_member ''B''] ! 0))
               - debit dime_expenses (member_user_id ([group_member ''A'', group_member ''B''] ! 0)))\<bar>
           \<le> of_nat (update_count dime_expenses) * 2 powi (1 - 52)"
    using C6_binary64_accumulation [of "[group_member ''A'', group_member ''B'']" dime_expenses "[]" 1] h i
    by blast
  then show ?thesis
    using i m n c by (simp add: group_member_def)
qed

section \<open>Proofs: split validation and the two-step write\<close>

subsection \<open>The rounding of the validation\<close>





lemma handleSubmit_rejected:
  "validation_fails f \<Longrightarrow>
     handleSubmit f ea sa s =
       \<lparr>error_message = SplitTotalMismatch (totalSplit f) (expenseAmount f),
        loading = False, closed_with_success = False, stored = s, requests = []\<rparr>"
  by (simp add: handleSubmit_def)

subsection \<open>The validation\<close>




subsection \<open>A rejected submission\<close>

text \<open>
  Claim C8. When validation fails, the error message carries the computed split sum
  and the expected amount, no write is sent, the stored tables are unchanged and the
  modal does not close with success.
\<close>

theorem C8_rejection_carries_both_totals:
  assumes "\<bar>js_sub (totalSplit f) (expenseAmount f)\<bar> > binary64 (1 / 100)"
  shows "error_message (handleSubmit f ea sa s) = SplitTotalMismatch (totalSplit f) (expenseAmount f) \<and>
         totalSplit f = foldl js_add 0 (map snd (splits f)) \<and>
         expenseAmount f = parseFloat (amountText f) \<and>
         requests (handleSubmit f ea sa s) = [] \<and>
         stored (handleSubmit f ea sa s) = s \<and>
         \<not> closed_with_success (handleSubmit f ea sa s)"
proof -
  have "validation_fails f" using assms by (simp add: validation_fails_def)
  then show ?thesis
    by (simp add: handleSubmit_rejected totalSplit_def expenseAmount_def)
qed

text \<open>A dinner of 10.00 with splits 5 and 4 is rejected with the totals 9 and 10.\<close>

theorem C8_rejection_carries_both_totals_witness:
  "\<bar>js_sub (totalSplit (dinner [(''A'', 5), (''B'', 4)])) (expenseAmount (dinner [(''A'', 5), (''B'', 4)]))\<bar>
     > binary64 (1 / 100) \<and>
   error_message (handleSubmit (dinner [(''A'', 5), (''B'', 4)]) (Data ''e1'') (Data ()) empty_storage)
     = SplitTotalMismatch 9 10 \<and>
   requests (handleSubmit (dinner [(''A'', 5), (''B'', 4)]) (Data ''e1'') (Data ()) empty_storage) = [] \<and>
   stored (handleSubmit (dinner [(''A'', 5), (''B'', 4)]) (Data ''e1'') (Data ()) empty_storage) = empty_storage"
proof -
  have t: "totalSplit (dinner [(''A'', 5), (''B'', 4)]) = 9" "expenseAmount (dinner [(''A'', 5), (''B'', 4)]) = 10"
    by code_simp+
  have a: "\<bar>js_sub (totalSplit (dinner [(''A'', 5), (''B'', 4)])) (expenseAmount (dinner [(''A'', 5), (''B'', 4)]))\<bar>
     > binary64 (1 / 100)"
    by code_simp
  show ?thesis
    using C8_rejection_carries_both_totals [OF a, of "Data ''e1''" "Data ()" empty_storage] a t
    by simp
qed

subsection \<open>The two writes\<close>

text \<open>
  A valid dinner, the expense insert answered with the id \<open>e1\<close>, the splits insert
  answered with an error: the expense row stays stored, without splits.
\<close>

theorem C4_counterexample:
  "\<not> validation_fails (dinner [(''A'', 5), (''B'', 5)]) \<and>
   stored (handleSubmit (dinner [(''A'', 5), (''B'', 5)]) (Data ''e1'') (Error ''denied'') empty_storage)
     = \<lparr>group_expenses_table = [(''e1'', new_group_expense (dinner [(''A'', 5), (''B'', 5)]))],
        expense_splits_table = []\<rparr> \<and>
   stored (handleSubmit (dinner [(''A'', 5), (''B'', 5)]) (Data ''e1'') (Error ''denied'') empty_storage)
     \<noteq> empty_storage"
proof -
  have "\<not> validation_fails (dinner [(''A'', 5), (''B'', 5)])"
    by code_simp
  then show ?thesis
    by (simp add: handleSubmit_def empty_storage_def insert_group_expense_def
        insert_expense_splits_def Let_def)
qed

text \<open>
  Claim C4, amended. Creating a group expense is two writes with no compensation.
  A rejected submission and one whose expense insert fails store nothing. When both
  inserts succeed, the expense and all its splits are stored. When the splits insert
  fails after the expense insert succeeded, the expense row remains stored without
  its splits, the backend's message is shown, and no further write is sent.
\<close>

theorem C4_two_step_write:
  "(validation_fails f \<longrightarrow>
      stored (handleSubmit f ea sa s) = s \<and> requests (handleSubmit f ea sa s) = []) \<and>
   (\<not> validation_fails f \<longrightarrow>
      stored (handleSubmit f (Error msg) sa s) = s \<and>
      stored (handleSubmit f (Data new_id) (Data ()) s)
        = s\<lparr>group_expenses_table := group_expenses_table s @ [(new_id, new_group_expense f)],
             expense_splits_table := expense_splits_table s @ splitInserts new_id f\<rparr> \<and>
      stored (handleSubmit f (Data new_id) (Error msg) s)
        = s\<lparr>group_expenses_table := group_expenses_table s @ [(new_id, new_group_expense f)]\<rparr> \<and>
      error_message (handleSubmit f (Data new_id) (Error msg) s) = BackendMessage msg \<and>
      requests (handleSubmit f (Data new_id) (Error msg) s)
        = [InsertGroupExpense (new_group_expense f), InsertExpenseSplits (splitInserts new_id f)])"
  by (simp add: handleSubmit_def insert_group_expense_def insert_expense_splits_def Let_def)

text \<open>
  At the valid dinner with a failing splits insert, and at a dinner with splits 5
  and 4, which is rejected.
\<close>

theorem C4_two_step_write_witness:
  "\<not> validation_fails (dinner [(''A'', 5), (''B'', 5)]) \<and>
   group_expenses_table (stored (handleSubmit (dinner [(''A'', 5), (''B'', 5)]) (Data ''e1'') (Error ''denied'') empty_storage))
     = [(''e1'', new_group_expense (dinner [(''A'', 5), (''B'', 5)]))] \<and>
   expense_splits_table (stored (handleSubmit (dinner [(''A'', 5), (''B'', 5)]) (Data ''e1'') (Error ''denied'') empty_storage)) = [] \<and>
   validation_fails (dinner [(''A'', 5), (''B'', 4)]) \<and>
   stored (handleSubmit (dinner [(''A'', 5), (''B'', 4)]) (Data ''e1'') (Data ()) empty_storage) = empty_storage"
proof -
  have a: "\<not> validation_fails (dinner [(''A'', 5), (''B'', 5)])"
    by code_simp
  have b: "validation_fails (dinner [(''A'', 5), (''B'', 4)])"
    by code_simp
  show ?thesis
    using C4_two_step_write [of "dinner [(''A'', 5), (''B'', 5)]" "Data ''e1''" "Data ()" empty_storage "''denied''" "''e1''"]
      C4_two_step_write [of "dinner [(''A'', 5), (''B'', 4)]" "Data ''e1''" "Data ()" empty_storage "''denied''" "''e1''"]
      a b
    by (simp add: empty_storage_def)
qed

section \<open>Proofs: the Settlement Trigger\<close>

subsection \<open>Encoding and reading back\<close>

lemma below_16_cases:
  "d < 16 \<Longrightarrow> d \<in> {0::nat, 1, 2, 3, 4, 5, 6, 7, 8, 9, 10, 11, 12, 13, 14, 15}"
  by simp arith

lemma below_10_cases:
  "d < 10 \<Longrightarrow> d \<in> {0::nat, 1, 2, 3, 4, 5, 6, 7, 8, 9}"
  by simp arith

lemma hex_val_hex_digit: "d < 16 \<Longrightarrow> hex_val (hex_digit d) = d"
  by (drule below_16_cases) (auto simp: hex_val_def hex_digit_def)

lemma hex_digit_plain: "d < 16 \<Longrightarrow> hex_digit d \<noteq> CHR ''&'' \<and> hex_digit d \<noteq> CHR ''=''"
  by (drule below_16_cases) (auto simp: hex_digit_def)

lemma digit_char_val: "d < 10 \<Longrightarrow> (of_char (digit_char d) :: nat) - 48 = d"
  by (drule below_10_cases) (auto simp: digit_char_def)

lemma of_char_div_16: "(of_char c :: nat) div 16 < 16"
proof -
  have "(of_char c :: nat) < 256" by simp
  then show ?thesis by arith
qed

lemma unescaped_not_special:
  "unescaped c \<Longrightarrow> c \<noteq> CHR ''+'' \<and> c \<noteq> CHR ''%'' \<and> c \<noteq> CHR ''&'' \<and> c \<noteq> CHR ''=''"
  by (auto simp: unescaped_def is_alnum_def)

lemma urldecode_percent_encode:
  "urldecode (percent_encode c @ t) = c # urldecode t"
proof -
  have "char_of (16 * hex_val (hex_digit ((of_char c :: nat) div 16))
                 + hex_val (hex_digit ((of_char c :: nat) mod 16))) = c"
    using of_char_div_16 [of c] by (simp add: hex_val_hex_digit)
  then show ?thesis by (simp add: percent_encode_def)
qed

lemma urldecode_urlencode_byte:
  "urldecode (urlencode_byte c @ t) = c # urldecode t"
proof (cases "c = CHR '' ''")
  case True
  then show ?thesis by (simp add: urlencode_byte_def)
next
  case False
  show ?thesis
  proof (cases "unescaped c")
    case True
    with False unescaped_not_special [of c] show ?thesis
      by (simp add: urlencode_byte_def)
  next
    case False
    with \<open>c \<noteq> CHR '' ''\<close> show ?thesis
      by (simp add: urlencode_byte_def urldecode_percent_encode)
  qed
qed

lemma urldecode_urlencode_append: "urldecode (urlencode s @ t) = s @ urldecode t"
  by (induction s) (simp_all add: urlencode_def urldecode_urlencode_byte)

lemma urldecode_urlencode: "urldecode (urlencode s) = s"
  using urldecode_urlencode_append [of s "[]"] by simp

lemma urlencode_byte_chars:
  "x \<in> set (urlencode_byte c) \<Longrightarrow> x \<noteq> CHR ''&'' \<and> x \<noteq> CHR ''=''"
proof -
  assume x: "x \<in> set (urlencode_byte c)"
  have h: "hex_digit ((of_char c :: nat) div 16) \<noteq> CHR ''&''"
          "hex_digit ((of_char c :: nat) div 16) \<noteq> CHR ''=''"
          "hex_digit ((of_char c :: nat) mod 16) \<noteq> CHR ''&''"
          "hex_digit ((of_char c :: nat) mod 16) \<noteq> CHR ''=''"
    using of_char_div_16 [of c] by (simp_all add: hex_digit_plain)
  show ?thesis
  proof (cases "c = CHR '' ''")
    case True
    with x show ?thesis by (simp add: urlencode_byte_def)
  next
    case False
    show ?thesis
    proof (cases "unescaped c")
      case True
      with False x unescaped_not_special [of c] show ?thesis
        by (simp add: urlencode_byte_def)
    next
      case False
      with \<open>c \<noteq> CHR '' ''\<close> x h show ?thesis
        by (auto simp: urlencode_byte_def percent_encode_def)
    qed
  qed
qed

lemma urlencode_chars: "x \<in> set (urlencode s) \<Longrightarrow> x \<noteq> CHR ''&'' \<and> x \<noteq> CHR ''=''"
  by (auto simp: urlencode_def dest: urlencode_byte_chars)

lemma pieces_nonempty: "pieces sep s \<noteq> []"
  by (induction s) (simp_all split: list.split)

lemma pieces_plain: "sep \<notin> set a \<Longrightarrow> pieces sep a = [a]"
  by (induction a) auto

lemma pieces_append:
  "sep \<notin> set a \<Longrightarrow> pieces sep (a @ sep # r) = a # pieces sep r"
proof (induction a)
  case Nil
  show ?case using pieces_nonempty [of sep r] by (simp split: list.split)
next
  case (Cons c a)
  then show ?case by auto
qed

lemma parse_pair_encoded:
  "parse_pair (urlencode k @ ''='' @ urlencode v) = (k, v)"
proof -
  have k: "\<forall>x \<in> set (urlencode k). x \<noteq> CHR ''=''"
    using urlencode_chars by blast
  have "takeWhile (\<lambda>c. c \<noteq> CHR ''='') (urlencode k @ CHR ''='' # urlencode v) = urlencode k"
    using k by (simp add: takeWhile_append2)
  moreover have "dropWhile (\<lambda>c. c \<noteq> CHR ''='') (urlencode k @ CHR ''='' # urlencode v)
      = CHR ''='' # urlencode v"
    using k by (simp add: dropWhile_append2)
  ultimately show ?thesis
    by (simp add: parse_pair_def urldecode_urlencode)
qed

lemma encode_pair_no_amp: "CHR ''&'' \<notin> set (encode_pair kv)"
  using urlencode_chars by (auto simp: encode_pair_def)

lemma parse_encode_pair: "parse_pair (encode_pair p) = p"
  using parse_pair_encoded [of "fst p" "snd p"] by (simp add: encode_pair_def)

lemma parse_join_amp:
  "ps \<noteq> [] \<Longrightarrow> map parse_pair (pieces CHR ''&'' (join_amp (map encode_pair ps))) = ps"
proof (induction ps rule: induct_list012)
  case 1
  then show ?case by simp
next
  case (2 p)
  show ?case
    using encode_pair_no_amp [of p]
    by (simp add: pieces_plain parse_encode_pair)
next
  case (3 p q ps)
  have "pieces CHR ''&'' (join_amp (map encode_pair (p # q # ps)))
      = encode_pair p # pieces CHR ''&'' (join_amp (map encode_pair (q # ps)))"
    using encode_pair_no_amp [of p] by (simp add: pieces_append)
  then show ?case using 3 by (simp add: parse_encode_pair)
qed

lemma URLSearchParams_roundtrip:
  "ps \<noteq> [] \<Longrightarrow> URLSearchParams_parse (URLSearchParams_toString ps) = ps"
  by (simp add: URLSearchParams_parse_def URLSearchParams_toString_def parse_join_amp)

subsection \<open>The rendering of an amount\<close>

lemma digits_small: "n < 10 \<Longrightarrow> digits n = [digit_char n]"
  by (subst digits.simps) simp

lemma digits_step: "10 \<le> n \<Longrightarrow> digits n = digits (n div 10) @ [digit_char (n mod 10)]"
  by (subst digits.simps) simp

lemma digits_nonempty: "digits n \<noteq> []"
  by (subst digits.simps) simp

lemma digit_char_0: "digit_char 0 = CHR ''0''"
  by (simp add: digit_char_def)

lemma fixed_form:
  fixes n :: nat
  defines "m \<equiv> (if length (digits n) \<le> 2
                  then replicate (3 - length (digits n)) CHR ''0'' @ digits n else digits n)"
  shows "take (length m - 2) m @ ''.'' @ drop (length m - 2) m
       = digits (n div 100) @ ''.'' @ [digit_char (n div 10 mod 10), digit_char (n mod 10)]"
proof -
  consider "n < 10" | "10 \<le> n" "n < 100" | "100 \<le> n" by linarith
  then show ?thesis
  proof cases
    case 1
    then have "digits n = [digit_char n]" "n div 100 = 0" "n div 10 mod 10 = 0" "n mod 10 = n"
      by (simp_all add: digits_small)
    then show ?thesis
      by (simp add: m_def digits_small digit_char_0 numeral_3_eq_3)
  next
    case 2
    then have "n div 10 < 10" by simp
    with 2 have "digits n = [digit_char (n div 10), digit_char (n mod 10)]"
      by (simp add: digits_step digits_small)
    moreover from 2 have "n div 100 = 0" "n div 10 mod 10 = n div 10" by simp_all
    ultimately show ?thesis
      by (simp add: m_def digits_small digit_char_0)
  next
    case 3
    then have "10 \<le> n" "10 \<le> n div 10" by simp_all
    then have "digits n = digits (n div 10 div 10) @ [digit_char (n div 10 mod 10), digit_char (n mod 10)]"
      by (simp add: digits_step)
    moreover have "n div 10 div 10 = n div 100"
      by (simp add: div_mult2_eq [symmetric])
    ultimately have d: "digits n = digits (n div 100) @ [digit_char (n div 10 mod 10), digit_char (n mod 10)]"
      by simp
    show ?thesis
      unfolding m_def using digits_nonempty [of "n div 100"] by (simp add: d)
  qed
qed

lemma toFixed2_fixed:
  assumes "0 \<le> x" and "x < 10 ^ 21"
  shows "toFixed2 x =
           digits (nearest_hundredth x div 100) @ ''.'' @
             [digit_char (nearest_hundredth x div 10 mod 10), digit_char (nearest_hundredth x mod 10)]"
proof -
  have "\<not> x < 0" "\<not> 10 ^ 21 \<le> x" using assms by simp_all
  then have "toFixed2 x =
    take (length (if length (digits (nearest_hundredth x)) \<le> 2
                  then replicate (3 - length (digits (nearest_hundredth x))) CHR ''0'' @ digits (nearest_hundredth x)
                  else digits (nearest_hundredth x)) - 2)
         (if length (digits (nearest_hundredth x)) \<le> 2
                  then replicate (3 - length (digits (nearest_hundredth x))) CHR ''0'' @ digits (nearest_hundredth x)
                  else digits (nearest_hundredth x)) @ ''.'' @
    drop (length (if length (digits (nearest_hundredth x)) \<le> 2
                  then replicate (3 - length (digits (nearest_hundredth x))) CHR ''0'' @ digits (nearest_hundredth x)
                  else digits (nearest_hundredth x)) - 2)
         (if length (digits (nearest_hundredth x)) \<le> 2
                  then replicate (3 - length (digits (nearest_hundredth x))) CHR ''0'' @ digits (nearest_hundredth x)
                  else digits (nearest_hundredth x))"
    unfolding toFixed2_def Let_def by (simp only: if_False append_Nil)
  also have "\<dots> = digits (nearest_hundredth x div 100) @ ''.'' @
             [digit_char (nearest_hundredth x div 10 mod 10), digit_char (nearest_hundredth x mod 10)]"
    by (rule fixed_form)
  finally show ?thesis .
qed

lemma digit_char_unescaped: "d < 10 \<Longrightarrow> urlencode_byte (digit_char d) = [digit_char d]"
  by (drule below_10_cases) (auto simp: digit_char_def urlencode_byte_def unescaped_def is_alnum_def)

lemma digit_char_not_dot: "d < 10 \<Longrightarrow> digit_char d \<noteq> CHR ''.''"
  by (drule below_10_cases) (auto simp: digit_char_def)

lemma urlencode_append: "urlencode (a @ b) = urlencode a @ urlencode b"
  by (simp add: urlencode_def)

lemma urlencode_digits: "urlencode (digits n) = digits n"
proof (induction n rule: digits.induct)
  case (1 n)
  show ?case
  proof (cases "n < 10")
    case True
    then show ?thesis by (simp add: digits_small urlencode_def digit_char_unescaped)
  next
    case False
    then have "urlencode (digits (n div 10)) = digits (n div 10)" by (rule 1)
    moreover have "urlencode [digit_char (n mod 10)] = [digit_char (n mod 10)]"
      by (simp add: urlencode_def digit_char_unescaped)
    ultimately show ?thesis using False by (simp add: digits_step urlencode_append)
  qed
qed

lemma urlencode_toFixed2:
  assumes "0 \<le> x" and "x < 10 ^ 21"
  shows "urlencode (toFixed2 x) = toFixed2 x"
proof -
  have "urlencode ''.'' = ''.''"
    by (simp add: urlencode_def urlencode_byte_def unescaped_def)
  moreover have "urlencode [digit_char (nearest_hundredth x div 10 mod 10), digit_char (nearest_hundredth x mod 10)]
    = [digit_char (nearest_hundredth x div 10 mod 10), digit_char (nearest_hundredth x mod 10)]"
    by (simp add: urlencode_def digit_char_unescaped)
  ultimately show ?thesis
    unfolding toFixed2_fixed [OF assms] urlencode_append
    by (simp only: urlencode_digits)
qed

lemma read_decimal_snoc:
  "read_decimal (s @ [c]) = (if c = CHR ''.'' then read_decimal s else 10 * read_decimal s + ((of_char c :: nat) - 48))"
  by (simp add: read_decimal_def)

lemma read_decimal_digits: "read_decimal (digits n) = n"
proof (induction n rule: digits.induct)
  case (1 n)
  show ?case
  proof (cases "n < 10")
    case True
    then show ?thesis
      by (simp add: digits_small read_decimal_def digit_char_val digit_char_not_dot)
  next
    case False
    then have "read_decimal (digits (n div 10)) = n div 10" by (rule 1)
    then show ?thesis using False
      by (simp add: digits_step read_decimal_snoc digit_char_val digit_char_not_dot)
  qed
qed

lemma read_decimal_fixed:
  "read_decimal (digits (n div 100) @ ''.'' @ [digit_char (n div 10 mod 10), digit_char (n mod 10)]) = n"
proof -
  have "read_decimal (((digits (n div 100) @ ''.'') @ [digit_char (n div 10 mod 10)]) @ [digit_char (n mod 10)])
      = 10 * (10 * (n div 100) + n div 10 mod 10) + n mod 10"
    unfolding read_decimal_snoc
    by (simp add: read_decimal_digits digit_char_val digit_char_not_dot)
  also have "\<dots> = n"
  proof -
    have "n div 100 = n div 10 div 10"
      by (simp add: div_mult2_eq [symmetric])
    then have "10 * (n div 100) + n div 10 mod 10 = n div 10"
      by simp
    then show ?thesis by simp
  qed
  finally show ?thesis by simp
qed

lemma read_decimal_toFixed2:
  "0 \<le> x \<Longrightarrow> x < 10 ^ 21 \<Longrightarrow> read_decimal (toFixed2 x) = nearest_hundredth x"
  by (simp only: toFixed2_fixed read_decimal_fixed)

lemma generateGooglePayUrl_query:
  "URLSearchParams_parse (drop 10 (generateGooglePayUrl p)) =
     [(''pa'', upiId p), (''pn'', name p), (''am'', toFixed2 (amount p)),
      (''cu'', ''INR''), (''tn'', noteText p)]"
proof -
  have "drop 10 (generateGooglePayUrl p) =
          URLSearchParams_toString
            [(''pa'', upiId p), (''pn'', name p), (''am'', toFixed2 (amount p)),
             (''cu'', ''INR''), (''tn'', noteText p)]"
    by (simp add: generateGooglePayUrl_def)
  then show ?thesis
    by (simp only: URLSearchParams_roundtrip list.distinct not_False_eq_True)
qed

lemma nearest_hundredth_whole:
  assumes "0 \<le> x" and "whole_hundredths x"
  shows "of_nat (nearest_hundredth x) = x * 100"
proof -
  obtain k :: int where k: "x * 100 = of_int k"
    using assms(2) unfolding whole_hundredths_def by metis
  have "0 \<le> x * 100" using assms(1) by simp
  then have k0: "0 \<le> k" using k by simp
  have "\<lfloor>of_int k + (1 / 2 :: rat)\<rfloor> = k" by linarith
  then show ?thesis
    using k k0 by (simp add: nearest_hundredth_def)
qed

subsection \<open>The settlement URI\<close>

lemmas url_eval = URLSearchParams_toString_def encode_pair_def urlencode_def urlencode_byte_def
  unescaped_def is_alnum_def percent_encode_def hex_digit_def

lemma nearest_hundredth_eqI:
  assumes "of_nat n \<le> x * 100 + 1 / 2" and "x * 100 + 1 / 2 < of_nat n + 1"
  shows "nearest_hundredth x = n"
proof -
  have "\<lfloor>x * 100 + 1 / 2\<rfloor> = int n"
    using assms by (intro floor_unique) simp_all
  then show ?thesis by (simp add: nearest_hundredth_def)
qed

lemma generateGooglePayUrl_text:
  assumes "0 \<le> amount p" and "amount p < 10 ^ 21"
  shows "generateGooglePayUrl p =
           ''upi://pay?pa='' @ urlencode (upiId p) @ ''&pn='' @ urlencode (name p) @
           ''&am='' @ toFixed2 (amount p) @ ''&cu=INR&tn='' @ urlencode (noteText p)"
proof -
  have "urlencode ''pa'' = ''pa''" "urlencode ''pn'' = ''pn''" "urlencode ''am'' = ''am''"
       "urlencode ''cu'' = ''cu''" "urlencode ''tn'' = ''tn''" "urlencode ''INR'' = ''INR''"
    by (simp_all add: url_eval)
  then show ?thesis
    by (simp add: generateGooglePayUrl_def URLSearchParams_toString_def encode_pair_def
        urlencode_toFixed2 [OF assms])
qed

text \<open>
  Claim C5, amended. For a positive amount below \<open>10\<^sup>2\<^sup>1\<close> and any payee, name
  and note, the result is \<^verbatim>\<open>upi://pay?\<close> followed by the parameters \<^verbatim>\<open>pa\<close>,
  \<^verbatim>\<open>pn\<close>, \<^verbatim>\<open>am\<close>, \<^verbatim>\<open>cu=INR\<close> and \<^verbatim>\<open>tn\<close> in form-urlencoded
  notation; the amount is rendered as the digits of its whole part, a point and
  exactly two fraction digits, rounded to the nearest hundredth; and reading the
  query back gives the payee, the name, the rendered amount, the currency code and
  the note. The function is total and has no state.
\<close>

theorem C5_settlement_uri:
  assumes "0 < amount p" and "amount p < 10 ^ 21"
  shows "generateGooglePayUrl p =
           ''upi://pay?pa='' @ urlencode (upiId p) @ ''&pn='' @ urlencode (name p) @
           ''&am='' @ toFixed2 (amount p) @ ''&cu=INR&tn='' @ urlencode (noteText p) \<and>
         toFixed2 (amount p) =
           digits (nearest_hundredth (amount p) div 100) @ ''.'' @
             [digit_char (nearest_hundredth (amount p) div 10 mod 10),
              digit_char (nearest_hundredth (amount p) mod 10)] \<and>
         URLSearchParams_parse (drop 10 (generateGooglePayUrl p)) =
           [(''pa'', upiId p), (''pn'', name p), (''am'', toFixed2 (amount p)),
            (''cu'', ''INR''), (''tn'', noteText p)]"
proof -
  have a: "0 \<le> amount p" using assms(1) by simp
  show ?thesis
    using generateGooglePayUrl_text [OF a assms(2)] toFixed2_fixed [OF a assms(2)]
      generateGooglePayUrl_query [of p]
    by (intro conjI)
qed

text \<open>A settlement of 25 to \<^verbatim>\<open>merchant@upi\<close>.\<close>

theorem C5_settlement_uri_witness:
  "0 < amount settle_25 \<and> amount settle_25 < 10 ^ 21 \<and>
   generateGooglePayUrl settle_25 =
     ''upi://pay?pa=merchant%40upi&pn=Asha+Rao&am=25.00&cu=INR&tn=Splitzee+settlement+for+Goa+trip'' \<and>
   toFixed2 (amount settle_25) = ''25.00''"
proof -
  have a: "0 < amount settle_25" and b: "amount settle_25 < 10 ^ 21"
    by (simp_all add: settle_25_def)
  have "nearest_hundredth 25 = 2500"
    by (rule nearest_hundredth_eqI) simp_all
  then have t: "toFixed2 (amount settle_25) = ''25.00''"
    by (simp add: settle_25_def toFixed2_fixed digits.simps digit_char_def)
  have "generateGooglePayUrl settle_25 =
           ''upi://pay?pa='' @ urlencode (upiId settle_25) @ ''&pn='' @ urlencode (name settle_25) @
           ''&am='' @ toFixed2 (amount settle_25) @ ''&cu=INR&tn='' @ urlencode (noteText settle_25)"
    using C5_settlement_uri [OF a b] by (rule conjunct1)
  also have "\<dots> = ''upi://pay?pa=merchant%40upi&pn=Asha+Rao&am=25.00&cu=INR&tn=Splitzee+settlement+for+Goa+trip''"
    unfolding t by (simp add: settle_25_def url_eval)
  finally show ?thesis using a b t by simp
qed

text \<open>
  At the positive amount \<open>10\<^sup>2\<^sup>1\<close> \<^verbatim>\<open>toFixed(2)\<close> answers \<^verbatim>\<open>1e+21\<close>, which has
  no fraction digits, and the URI carries \<^verbatim>\<open>am=1e%2B21\<close>.
\<close>

theorem C5_counterexample:
  "0 < amount \<lparr>upiId = ''merchant@upi'', amount = 10 ^ 21, name = ''A'', noteText = ''n''\<rparr> \<and>
   toFixed2 (10 ^ 21) = ''1e+21'' \<and>
   generateGooglePayUrl \<lparr>upiId = ''merchant@upi'', amount = 10 ^ 21, name = ''A'', noteText = ''n''\<rparr>
     = ''upi://pay?pa=merchant%40upi&pn=A&am=1e%2B21&cu=INR&tn=n''"
proof -
  have b: "binary64 1000000000000000000000 = 1000000000000000000000"
    by code_simp
  have c: "candidate (10 ^ 21) 22 1 = (1, 22)"
    by (simp add: candidate_def round_half_even_def)
  have r: "reads_back (10 ^ 21) 1 (1, 22)"
    by (simp add: reads_back_def b)
  have "shortest (10 ^ 21) 22 1 (Suc 15) = (1, 1, 22)"
    by (simp only: shortest.simps c r if_True)
  then have s: "shortest (10 ^ 21) 22 1 16 = (1, 1, 22)"
    by simp
  have l: "length (digits (nat \<lfloor>10 ^ 21 :: rat\<rfloor>)) = 22"
    by (simp add: digits.simps digit_char_def)
  have d: "digits (Suc 0) = ''1''" "digits 21 = ''21''"
    by (simp_all add: digits.simps digit_char_def)
  have "number_toString_exp (10 ^ 21) = ''1e+21''"
    unfolding number_toString_exp_def Let_def l s by (simp add: d)
  then have t: "toFixed2 (10 ^ 21) = ''1e+21''"
    by (simp add: toFixed2_def)
  have e: "urlencode ''1e+21'' = ''1e%2B21''"
    by (simp add: url_eval)
  have "generateGooglePayUrl \<lparr>upiId = ''merchant@upi'', amount = 10 ^ 21, name = ''A'', noteText = ''n''\<rparr>
     = ''upi://pay?'' @ URLSearchParams_toString
          [(''pa'', ''merchant@upi''), (''pn'', ''A''), (''am'', ''1e+21''), (''cu'', ''INR''), (''tn'', ''n'')]"
    unfolding generateGooglePayUrl_def Let_def GooglePayParams.simps t ..
  also have "\<dots> = ''upi://pay?pa=merchant%40upi&pn=A&am=1e%2B21&cu=INR&tn=n''"
    by (simp add: url_eval)
  finally show ?thesis using t by simp
qed

subsection \<open>When two inputs give the same URI\<close>

text \<open>
  The amounts 1 and 1 + 1/512 differ, both are rendered \<^verbatim>\<open>1.00\<close>, and the two
  URIs are the same.
\<close>

theorem C9_counterexample:
  "\<lparr>upiId = ''merchant@upi'', amount = 1, name = ''A'', noteText = ''n''\<rparr>
     \<noteq> \<lparr>upiId = ''merchant@upi'', amount = 1 + 1 / 512, name = ''A'', noteText = ''n''\<rparr> \<and>
   generateGooglePayUrl \<lparr>upiId = ''merchant@upi'', amount = 1, name = ''A'', noteText = ''n''\<rparr>
     = generateGooglePayUrl \<lparr>upiId = ''merchant@upi'', amount = 1 + 1 / 512, name = ''A'', noteText = ''n''\<rparr>"
proof -
  have "nearest_hundredth 1 = 100" "nearest_hundredth (1 + 1 / 512) = 100"
    by (rule nearest_hundredth_eqI; simp)+
  then have "toFixed2 1 = toFixed2 (1 + 1 / 512)"
    by (simp add: toFixed2_fixed)
  then show ?thesis
    by (simp add: generateGooglePayUrl_def)
qed

lemma generateGooglePayUrl_eq_iff:
  "generateGooglePayUrl p = generateGooglePayUrl q \<longleftrightarrow>
     upiId p = upiId q \<and> name p = name q \<and> noteText p = noteText q \<and>
     toFixed2 (amount p) = toFixed2 (amount q)"
proof
  assume "generateGooglePayUrl p = generateGooglePayUrl q"
  then have "URLSearchParams_parse (drop 10 (generateGooglePayUrl p))
           = URLSearchParams_parse (drop 10 (generateGooglePayUrl q))"
    by simp
  then show "upiId p = upiId q \<and> name p = name q \<and> noteText p = noteText q \<and>
     toFixed2 (amount p) = toFixed2 (amount q)"
    unfolding generateGooglePayUrl_query by simp
next
  assume "upiId p = upiId q \<and> name p = name q \<and> noteText p = noteText q \<and>
     toFixed2 (amount p) = toFixed2 (amount q)"
  then show "generateGooglePayUrl p = generateGooglePayUrl q"
    by (simp add: generateGooglePayUrl_def)
qed

lemma toFixed2_eq_iff:
  assumes "0 \<le> x" "x < 10 ^ 21" "0 \<le> y" "y < 10 ^ 21"
  shows "toFixed2 x = toFixed2 y \<longleftrightarrow> nearest_hundredth x = nearest_hundredth y"
proof
  assume "toFixed2 x = toFixed2 y"
  then have "read_decimal (toFixed2 x) = read_decimal (toFixed2 y)" by simp
  then show "nearest_hundredth x = nearest_hundredth y"
    using assms by (simp add: read_decimal_toFixed2)
next
  assume "nearest_hundredth x = nearest_hundredth y"
  then show "toFixed2 x = toFixed2 y"
    using assms by (simp add: toFixed2_fixed)
qed

text \<open>
  Claim C9, amended. For ASCII payee, name and note and positive amounts below
  \<open>10\<^sup>2\<^sup>1\<close>, two inputs give the same URI exactly when payee, name and note are
  equal and the amounts round to the same hundredth. When both amounts are whole
  numbers of hundredths, the inputs themselves are then equal. The URI is a function
  of the input alone.
\<close>

theorem C9_uri_injective_up_to_rounding:
  assumes "ascii (upiId p)" "ascii (name p)" "ascii (noteText p)"
      and "ascii (upiId q)" "ascii (name q)" "ascii (noteText q)"
      and "0 < amount p" "amount p < 10 ^ 21" "0 < amount q" "amount q < 10 ^ 21"
  shows "(generateGooglePayUrl p = generateGooglePayUrl q \<longleftrightarrow>
            upiId p = upiId q \<and> name p = name q \<and> noteText p = noteText q \<and>
            nearest_hundredth (amount p) = nearest_hundredth (amount q)) \<and>
         (whole_hundredths (amount p) \<and> whole_hundredths (amount q) \<longrightarrow>
            (generateGooglePayUrl p = generateGooglePayUrl q \<longleftrightarrow> p = q))"
proof -
  have r: "0 \<le> amount p" "0 \<le> amount q" using assms by simp_all
  have t: "toFixed2 (amount p) = toFixed2 (amount q)
       \<longleftrightarrow> nearest_hundredth (amount p) = nearest_hundredth (amount q)"
    using r assms(8,10) by (intro toFixed2_eq_iff)
  have main: "generateGooglePayUrl p = generateGooglePayUrl q \<longleftrightarrow>
            upiId p = upiId q \<and> name p = name q \<and> noteText p = noteText q \<and>
            nearest_hundredth (amount p) = nearest_hundredth (amount q)"
    unfolding generateGooglePayUrl_eq_iff t ..
  have "amount p = amount q"
    if "whole_hundredths (amount p)" "whole_hundredths (amount q)"
       "nearest_hundredth (amount p) = nearest_hundredth (amount q)"
  proof -
    have "amount p * 100 = of_nat (nearest_hundredth (amount p))"
      using r(1) that(1) by (rule nearest_hundredth_whole [symmetric])
    also have "\<dots> = of_nat (nearest_hundredth (amount q))"
      by (simp only: that(3))
    also have "\<dots> = amount q * 100"
      using r(2) that(2) by (rule nearest_hundredth_whole)
    finally show ?thesis by simp
  qed
  then have "whole_hundredths (amount p) \<and> whole_hundredths (amount q) \<longrightarrow>
            (generateGooglePayUrl p = generateGooglePayUrl q \<longleftrightarrow> p = q)"
    unfolding main by (cases p, cases q) auto
  with main show ?thesis by (rule conjI)
qed

text \<open>The amounts 25 and 25.01 give different URIs.\<close>

theorem C9_uri_injective_up_to_rounding_witness:
  "ascii ''merchant@upi'' \<and> ascii ''A'' \<and> ascii ''n'' \<and> (0::rat) < 25 \<and> (25::rat) < 10 ^ 21 \<and>
   (0::rat) < 2501 / 100 \<and> (2501 / 100 :: rat) < 10 ^ 21 \<and>
   whole_hundredths 25 \<and> whole_hundredths (2501 / 100) \<and>
   generateGooglePayUrl \<lparr>upiId = ''merchant@upi'', amount = 25, name = ''A'', noteText = ''n''\<rparr>
     \<noteq> generateGooglePayUrl \<lparr>upiId = ''merchant@upi'', amount = 2501 / 100, name = ''A'', noteText = ''n''\<rparr>"
proof -
  have s: "ascii ''merchant@upi''" "ascii ''A''" "ascii ''n''"
    by (simp_all add: ascii_def)
  have w: "whole_hundredths 25" "whole_hundredths (2501 / 100)"
    by (simp_all add: whole_hundredths_def)
  have "nearest_hundredth 25 = 2500" "nearest_hundredth (2501 / 100) = 2501"
    by (rule nearest_hundredth_eqI; simp)+
  then have n: "nearest_hundredth 25 \<noteq> nearest_hundredth (2501 / 100)"
    by simp
  show ?thesis
    using C9_uri_injective_up_to_rounding
      [of "\<lparr>upiId = ''merchant@upi'', amount = 25, name = ''A'', noteText = ''n''\<rparr>"
          "\<lparr>upiId = ''merchant@upi'', amount = 2501 / 100, name = ''A'', noteText = ''n''\<rparr>"]
      s w n
    by simp
qed

end
